theory Spec2Isabelle
  imports Main "HOL-Library.Sublist" "HOL-Library.Word"
begin

section \<open>Terminal background colour query (twin, parseTerminalBgColorResponse)\<close>

text \<open>
  Go strings are byte sequences; the response of the terminal is modelled as a
  \<open>string\<close> (a list of 8-bit characters). The helpers below are the functions of Go's
  \<open>strings\<close> and \<open>strconv\<close> packages that the parser calls.
\<close>

datatype Color = ColorDefault | Color16 nat | Color256 nat | Color24Bit "8 word" "8 word" "8 word"

definition HasPrefix :: "'a list \<Rightarrow> 'a list \<Rightarrow> bool" where
  "HasPrefix s p = prefix p s"

definition TrimPrefix :: "'a list \<Rightarrow> 'a list \<Rightarrow> 'a list" where
  "TrimPrefix s p = (if HasPrefix s p then drop (length p) s else s)"

definition HasSuffix :: "'a list \<Rightarrow> 'a list \<Rightarrow> bool" where
  "HasSuffix s x = suffix x s"

definition TrimSuffix :: "'a list \<Rightarrow> 'a list \<Rightarrow> 'a list" where
  "TrimSuffix s x = (if HasSuffix s x then take (length s - length x) s else s)"

definition hexVal :: "char \<Rightarrow> nat option" where
  "hexVal c =
     (let n = (of_char c :: nat) in
      if 48 \<le> n \<and> n \<le> 57 then Some (n - 48)
      else if 97 \<le> n \<and> n \<le> 102 then Some (n - 87)
      else if 65 \<le> n \<and> n \<le> 70 then Some (n - 55)
      else None)"

fun parseHexDigits :: "nat \<Rightarrow> string \<Rightarrow> nat option" where
  "parseHexDigits acc [] = Some acc"
| "parseHexDigits acc (c # cs) =
     (case hexVal c of None \<Rightarrow> None | Some d \<Rightarrow> parseHexDigits (16 * acc + d) cs)"

text \<open>\<open>strconv.ParseUint(s, 16, 16)\<close>; \<open>None\<close> is the error return (empty input, a
  character that is no hexadecimal digit, or a value that does not fit 16 bits).\<close>

definition ParseUint16 :: "string \<Rightarrow> nat option" where
  "ParseUint16 s =
     (if s = [] then None
      else case parseHexDigits 0 s of
             None \<Rightarrow> None
           | Some v \<Rightarrow> if v < 65536 then Some v else None)"

definition bgPrefix :: string where
  "bgPrefix = CHR 0x1B # '']11;rgb:''"

definition bgSuffix1 :: string where
  "bgSuffix1 = [CHR 0x07]"

definition bgSuffix2 :: string where
  "bgSuffix2 = [CHR 0x1B, CHR 0x5C]"

definition sampleResponse1 :: string where
  "sampleResponse1 = bgPrefix @ ''0000/0000/0000'' @ bgSuffix1"

definition sampleResponse2 :: string where
  "sampleResponse2 = bgPrefix @ ''0000/0000/0000'' @ bgSuffix2"

text \<open>The result is the pair \<open>(color, valid)\<close> of the source; \<open>None\<close> is the nil color.\<close>

definition parseTerminalBgColorResponse :: "string \<Rightarrow> Color option \<times> bool" where
  "parseTerminalBgColorResponse responseBytes =
     (if \<not> HasPrefix responseBytes bgPrefix then (None, False)
      else
        let response = TrimPrefix responseBytes bgPrefix;
            isComplete = (HasSuffix response bgSuffix1 \<or> HasSuffix response bgSuffix2)
        in if \<not> isComplete \<and>
              (length responseBytes < length sampleResponse1 \<or>
               length responseBytes < length sampleResponse2)
           then (None, True)
           else if \<not> isComplete then (None, False)
           else
             let response = TrimSuffix (TrimSuffix response bgSuffix1) bgSuffix2
             in if length response \<noteq> 14 then (None, False)
                else case ParseUint16 (take 4 response) of
                  None \<Rightarrow> (None, False)
                | Some red \<Rightarrow>
                   (case ParseUint16 (take 4 (drop 5 response)) of
                      None \<Rightarrow> (None, False)
                    | Some green \<Rightarrow>
                       (case ParseUint16 (take 4 (drop 10 response)) of
                          None \<Rightarrow> (None, False)
                        | Some blue \<Rightarrow>
                            (Some (Color24Bit (of_nat (red div 256)) (of_nat (green div 256))
                                     (of_nat (blue div 256))), True))))"

definition bgExample :: string where
  "bgExample = CHR 0x1B # '']11;rgb:1234/5678/9abc'' @ [CHR 0x07]"


section \<open>Cells, styles and the cell grid (twin)\<close>

text \<open>
  A rune is a Unicode code point. The style type, the styled rune and the display width of a
  rune belong to files of the repository that are not among the sources; they are modelled
  by the fields the sources read. The display width of a rune is the parameter \<open>rw\<close> of
  every function that needs it.
\<close>

type_synonym rune = nat

datatype Attr = AttrBold | AttrBlink | AttrReverse | AttrUnderline | AttrDim | AttrItalic
  | AttrStrikeThrough

record Style =
  fg :: Color
  bg :: Color
  attrs :: "Attr set"
  hyperlinkURL :: "string option"

definition StyleDefault :: Style where
  "StyleDefault = \<lparr>fg = ColorDefault, bg = ColorDefault, attrs = {}, hyperlinkURL = None\<rparr>"

definition has :: "Attr set \<Rightarrow> Attr \<Rightarrow> bool" where
  "has m a = (a \<in> m)"

definition WithBackground :: "Style \<Rightarrow> Color \<Rightarrow> Style" where
  "WithBackground s c = s\<lparr>bg := c\<rparr>"

definition WithHyperlink :: "Style \<Rightarrow> string option \<Rightarrow> Style" where
  "WithHyperlink s u = s\<lparr>hyperlinkURL := u\<rparr>"

record StyledRune =
  Rune :: rune
  Style :: Style

definition NewStyledRune :: "rune \<Rightarrow> Style \<Rightarrow> StyledRune" where
  "NewStyledRune r s = \<lparr>Rune = r, Style = s\<rparr>"

text \<open>\<open>Width()\<close> of a styled rune or of a cell: the display width of its rune.\<close>

definition Width :: "(rune \<Rightarrow> int) \<Rightarrow> 'a StyledRune_scheme \<Rightarrow> int" where
  "Width rw c = rw (Rune c)"

text \<open>A run-time panic of the Go program, as a value.\<close>

datatype panic = IndexOutOfRange | SliceBoundsOutOfRange | PanicMessage string

text \<open>
  \<open>screen.cells[row][column] = v\<close>. Go panics when an index is outside the grid.
\<close>

definition storeCell ::
  "StyledRune list list \<Rightarrow> int \<Rightarrow> int \<Rightarrow> StyledRune \<Rightarrow> panic + StyledRune list list" where
  "storeCell cells row column v =
     (if 0 \<le> row \<and> nat row < length cells \<and> 0 \<le> column \<and> nat column < length (cells ! nat row)
      then Inr (cells[nat row := (cells ! nat row)[nat column := v]])
      else Inl IndexOutOfRange)"

text \<open>
  \<open>UnixScreen.SetCell\<close>. The pair \<open>dims\<close> is what \<open>screen.Size()\<close> returns to it, and
  \<open>cells\<close> is the grid after that call. The result is the returned width and the grid.
\<close>

definition SetCell ::
  "(rune \<Rightarrow> int) \<Rightarrow> int \<times> int \<Rightarrow> StyledRune list list \<Rightarrow> int \<Rightarrow> int \<Rightarrow> StyledRune
     \<Rightarrow> panic + (int \<times> StyledRune list list)" where
  "SetCell rw dims cells column row styledRune =
     (if column < 0 then Inr (Width rw styledRune, cells)
      else if row < 0 then Inr (Width rw styledRune, cells)
      else
        let width = fst dims; height = snd dims in
        if column \<ge> width then Inr (Width rw styledRune, cells)
        else if row \<ge> height then Inr (Width rw styledRune, cells)
        else if column + Width rw styledRune > width
        then (case storeCell cells row column (NewStyledRune 32 (Style styledRune)) of
                Inl e \<Rightarrow> Inl e
              | Inr cells' \<Rightarrow> Inr (Width rw styledRune, cells'))
        else (case storeCell cells row column styledRune of
                Inl e \<Rightarrow> Inl e
              | Inr cells' \<Rightarrow> Inr (Width rw styledRune, cells')))"

text \<open>The grid has \<open>height\<close> rows of \<open>width\<close> cells, as \<open>Size()\<close> allocates it.\<close>

definition gridOfSize :: "int \<times> int \<Rightarrow> StyledRune list list \<Rightarrow> bool" where
  "gridOfSize dims cells =
     (int (length cells) = snd dims \<and> list_all (\<lambda>r. int (length r) = fst dims) cells)"

text \<open>A display width table for examples: code points from U+1100 on are double-width.\<close>

definition exampleWidth :: "rune \<Rightarrow> int" where
  "exampleWidth r = (if r \<ge> 0x1100 then 2 else 1)"

definition blankCell :: StyledRune where
  "blankCell = NewStyledRune 32 StyleDefault"

definition exampleGrid :: "StyledRune list list" where
  "exampleGrid = replicate 2 (replicate 3 blankCell)"

definition wideRune :: StyledRune where
  "wideRune = NewStyledRune 0x5348 (StyleDefault\<lparr>attrs := {AttrBold}\<rparr>)"


section \<open>Input events (twin, consumeEncodedEvent)\<close>

text \<open>
  \<open>mainLoop\<close> hands \<open>consumeEncodedEvent\<close> only valid UTF-8 (it checks \<open>utf8.ValidString\<close>
  first), so the Go string is modelled as the sequence of its code points: a prefix test on
  the bytes and on the code points agree, \<open>[]rune(s)\<close> is the sequence itself and
  \<open>string(runes[1:])\<close> its tail. \<open>runes\<close> writes an ASCII literal as code points.
\<close>

definition runes :: "string \<Rightarrow> rune list" where
  "runes s = map of_char s"

text \<open>
  The key codes and the table \<open>escapeSequenceToKeyCode\<close> are declared in keys.go, which is
  not among the sources. \<open>Key n\<close> stands for every key code but the two the sources name. The
  table is a parameter: an association list in the order in which Go's \<open>range\<close> statement
  happens to visit the map.
\<close>

datatype KeyCode = KeyEscape | KeyEnter | Key nat

datatype MouseButtons = MouseWheelUp | MouseWheelDown

datatype Event = EventKeyCode KeyCode | EventMouse MouseButtons | EventRune rune
  | EventResize | EventExit

definition isDigit :: "rune \<Rightarrow> bool" where
  "isDigit r = (48 \<le> r \<and> r \<le> 57)"

text \<open>\<open>([0-9]+)\<close>: the longest run of digits, which must not be empty, and what follows it.
  The character after each group of the pattern is not a digit, so a match takes the whole
  run.\<close>

definition digitGroup :: "rune list \<Rightarrow> (rune list \<times> rune list) option" where
  "digitGroup s =
     (let d = takeWhile isDigit s in if d = [] then None else Some (d, dropWhile isDigit s))"

text \<open>One literal character of the pattern.\<close>

definition literal :: "rune \<Rightarrow> rune list \<Rightarrow> rune list option" where
  "literal c s = (case s of [] \<Rightarrow> None | x # rest \<Rightarrow> if x = c then Some rest else None)"

text \<open>
  \<open>mouseEventRegex.FindStringSubmatch\<close> for the pattern \<open>^ESC\[<([0-9]+);([0-9]+);([0-9]+)M\<close>:
  \<open>None\<close> is nil, otherwise the list holds the whole match and the three groups.
\<close>

definition mouseEventRegex :: "rune list \<Rightarrow> rune list list option" where
  "mouseEventRegex s =
     (case literal 0x1B s of None \<Rightarrow> None | Some s1 \<Rightarrow>
      case literal 0x5B s1 of None \<Rightarrow> None | Some s2 \<Rightarrow>
      case literal 0x3C s2 of None \<Rightarrow> None | Some s3 \<Rightarrow>
      case digitGroup s3 of None \<Rightarrow> None | Some (g1, s4) \<Rightarrow>
      case literal 0x3B s4 of None \<Rightarrow> None | Some s5 \<Rightarrow>
      case digitGroup s5 of None \<Rightarrow> None | Some (g2, s6) \<Rightarrow>
      case literal 0x3B s6 of None \<Rightarrow> None | Some s7 \<Rightarrow>
      case digitGroup s7 of None \<Rightarrow> None | Some (g3, s8) \<Rightarrow>
      case literal 0x4D s8 of None \<Rightarrow> None | Some s9 \<Rightarrow>
        Some [[0x1B, 0x5B, 0x3C] @ g1 @ [0x3B] @ g2 @ [0x3B] @ g3 @ [0x4D], g1, g2, g3])"

text \<open>The result is the pair of the source: the event (\<open>None\<close> is nil) and the remainder.\<close>

definition consumeEncodedEvent ::
  "(rune list \<times> KeyCode) list \<Rightarrow> rune list \<Rightarrow> Event option \<times> rune list" where
  "consumeEncodedEvent escapeSequenceToKeyCode encodedEventSequences =
     (case find (\<lambda>(singleKeyCodeSequence, keyCode).
                   HasPrefix encodedEventSequences singleKeyCodeSequence)
             escapeSequenceToKeyCode of
        Some (singleKeyCodeSequence, keyCode) \<Rightarrow>
          (Some (EventKeyCode keyCode), TrimPrefix encodedEventSequences singleKeyCodeSequence)
      | None \<Rightarrow>
         (case mouseEventRegex encodedEventSequences of
            Some mouseMatch \<Rightarrow>
              if mouseMatch ! 1 = runes ''64''
              then (Some (EventMouse MouseWheelUp),
                    TrimPrefix encodedEventSequences (mouseMatch ! 0))
              else if mouseMatch ! 1 = runes ''65''
              then (Some (EventMouse MouseWheelDown),
                    TrimPrefix encodedEventSequences (mouseMatch ! 0))
              else (None, [])
          | None \<Rightarrow>
             (case encodedEventSequences of
                [] \<Rightarrow> (None, [])
              | r0 # rest \<Rightarrow>
                  if r0 = 0x1B
                  then (if rest \<noteq> [] then (None, [])
                        else (Some (EventKeyCode KeyEscape), rest))
                  else if r0 = 0x0D then (Some (EventKeyCode KeyEnter), rest)
                  else (Some (EventRune r0), rest))))"

text \<open>No sequence of the table starts the input.\<close>

definition noKeyMatches :: "(rune list \<times> KeyCode) list \<Rightarrow> rune list \<Rightarrow> bool" where
  "noKeyMatches keys s = list_all (\<lambda>(k, c). \<not> HasPrefix s k) keys"

text \<open>Inputs and a small key table for the examples.\<close>

definition wheelExample :: "rune list" where
  "wheelExample = 0x1B # runes ''[<65;10;5M''"

definition exampleKeys :: "(rune list \<times> KeyCode) list" where
  "exampleKeys = [(0x1B # runes ''[A'', Key 1), (0x1B # runes ''[B'', Key 2),
                  (0x1B # runes ''[5~'', Key 3)]"

definition wheel64Example :: "rune list" where
  "wheel64Example = 0x1B # runes ''[<64;10;5M''"

definition unknownThenKey :: "rune list" where
  "unknownThenKey = 0x1B # runes ''[Zq'' @ 0x1B # runes ''[A''"

definition buttonThenKey :: "rune list" where
  "buttonThenKey = 0x1B # runes ''[<0;10;5M'' @ 0x1B # runes ''[A''"


section \<open>The parallel search engine (search.go)\<close>

text \<open>
  A line index is the zero-based number of an input line.
\<close>

type_synonym Index = nat

text \<open>
  Modelled from the spec: \<open>linemetadata.Index.NonWrappingAdd\<close> is not among the sources.
  Section 3 of the spec: index arithmetic is non-wrapping at zero (subtracting past zero
  clamps to zero).
\<close>

definition NonWrappingAdd :: "Index \<Rightarrow> int \<Rightarrow> Index" where
  "NonWrappingAdd i offset = (if int i + offset < 0 then 0 else nat (int i + offset))"

text \<open>
  Modelled from the spec: the line source (\<open>reader.Reader\<close>) is not among the sources.
  Section 6 of the spec: \<open>GetLineCount() -> integer\<close>, \<open>GetLine(index) -> line-or-absent\<close>.
  The store is the list of the plain texts of its lines.
\<close>

definition GetLineCount :: "string list \<Rightarrow> int" where
  "GetLineCount reader = int (length reader)"

definition GetLine :: "string list \<Rightarrow> Index \<Rightarrow> string option" where
  "GetLine reader i = (if i < length reader then Some (reader ! i) else None)"

text \<open>Go's integer division truncates towards zero; the divisor is not zero here.\<close>

definition goDiv :: "int \<Rightarrow> int \<Rightarrow> int" where
  "goDiv a b = sgn a * sgn b * (\<bar>a\<bar> div \<bar>b\<bar>)"

text \<open>
  The source's \<open>_findFirstHit\<close>, the search of one chunk (an Isabelle name cannot start with
  an underscore). \<open>pattern\<close> is \<open>pattern.MatchString\<close> on the plain text of a line;
  \<open>beforePosition\<close> is the optional exclusive bound.
\<close>

function u_findFirstHit ::
  "string list \<Rightarrow> Index \<Rightarrow> (string \<Rightarrow> bool) \<Rightarrow> Index option \<Rightarrow> bool \<Rightarrow> Index option" where
  "u_findFirstHit reader searchPosition pattern beforePosition backwards =
     (case GetLine reader searchPosition of
        None \<Rightarrow> None
      | Some line \<Rightarrow>
          if pattern line then Some searchPosition
          else if backwards \<and> searchPosition = 0 then None
          else
            let next = (if backwards then NonWrappingAdd searchPosition (- 1)
                        else NonWrappingAdd searchPosition 1)
            in if beforePosition = Some next then None
               else u_findFirstHit reader next pattern beforePosition backwards)"
  by pat_completeness auto
termination
  by (relation "measure (\<lambda>(reader, p, pat, b, backwards).
        if backwards then p else length reader - p)")
     (auto simp: GetLine_def NonWrappingAdd_def split: if_splits)

declare u_findFirstHit.simps [simp del]

text \<open>
  The same loop, returning the positions whose line it fetched and matched against the
  pattern, in the order of the scan.
\<close>

function u_findFirstHit_scanned ::
  "string list \<Rightarrow> Index \<Rightarrow> (string \<Rightarrow> bool) \<Rightarrow> Index option \<Rightarrow> bool \<Rightarrow> Index list" where
  "u_findFirstHit_scanned reader searchPosition pattern beforePosition backwards =
     (case GetLine reader searchPosition of
        None \<Rightarrow> []
      | Some line \<Rightarrow>
          if pattern line then [searchPosition]
          else if backwards \<and> searchPosition = 0 then [searchPosition]
          else
            let next = (if backwards then NonWrappingAdd searchPosition (- 1)
                        else NonWrappingAdd searchPosition 1)
            in if beforePosition = Some next then [searchPosition]
               else searchPosition #
                    u_findFirstHit_scanned reader next pattern beforePosition backwards)"
  by pat_completeness auto
termination
  by (relation "measure (\<lambda>(reader, p, pat, b, backwards).
        if backwards then p else length reader - p)")
     (auto simp: GetLine_def NonWrappingAdd_def split: if_splits)

declare u_findFirstHit_scanned.simps [simp del]

text \<open>
  The fan-out and fan-in of \<open>findFirstHit\<close>. Chunk \<open>i\<close> has a channel of its own,
  \<open>findings[i]\<close>. \<open>order\<close> lists the chunk workers in the order in which they finish; each
  offers its result on its channel (\<open>deliver\<close>). The caller then receives from the channels
  in the order of the chunks and returns the first result that is not nil (\<open>receiveFirst\<close>);
  a receive from a channel whose worker never finishes blocks forever, which is the value
  \<open>None\<close>.
\<close>

definition deliver :: "nat list \<Rightarrow> (nat \<Rightarrow> Index option) \<Rightarrow> nat \<Rightarrow> Index option option list" where
  "deliver order worker n =
     fold (\<lambda>i ch. if i < n then ch[i := Some (worker i)] else ch) order (replicate n None)"

fun receiveFirst :: "Index option option list \<Rightarrow> Index option option" where
  "receiveFirst [] = Some None"
| "receiveFirst (None # findings) = None"
| "receiveFirst (Some None # findings) = receiveFirst findings"
| "receiveFirst (Some (Some result) # findings) = Some (Some result)"

text \<open>The number of lines to search, as \<open>findFirstHit\<close> computes it.\<close>

definition linesCountOf :: "string list \<Rightarrow> Index \<Rightarrow> Index option \<Rightarrow> bool \<Rightarrow> int" where
  "linesCountOf reader startPosition beforePosition backwards =
     (if backwards
      then (case beforePosition of
              None \<Rightarrow> int startPosition + 1
            | Some b \<Rightarrow> int startPosition - int b)
      else (case beforePosition of
              None \<Rightarrow> GetLineCount reader - int startPosition
            | Some b \<Rightarrow> int b - int startPosition))"

text \<open>The start positions of the chunks.\<close>

definition searchStartsOf ::
  "nat \<Rightarrow> string list \<Rightarrow> Index \<Rightarrow> Index option \<Rightarrow> bool \<Rightarrow> Index list" where
  "searchStartsOf numCPU reader startPosition beforePosition backwards =
     (let linesCount = linesCountOf reader startPosition beforePosition backwards;
          chunkCount = (if linesCount < int numCPU then 1 else int numCPU);
          chunkSize = goDiv linesCount chunkCount;
          direction = (if backwards then - 1 else 1)
      in map (\<lambda>i. NonWrappingAdd startPosition (int i * direction * chunkSize))
           [0..<nat chunkCount])"

text \<open>The exclusive bound of chunk \<open>i\<close>: the start of the next chunk, or the caller's
  bound for the last chunk.\<close>

definition chunkBeforeOf :: "Index list \<Rightarrow> Index option \<Rightarrow> nat \<Rightarrow> Index option" where
  "chunkBeforeOf searchStarts beforePosition i =
     (if i + 1 < length searchStarts then Some (searchStarts ! (i + 1)) else beforePosition)"

text \<open>
  \<open>Pager.findFirstHit\<close>. \<open>numCPU\<close> is \<open>runtime.NumCPU()\<close>, \<open>reader\<close> and \<open>pattern\<close> are
  \<open>p.Reader()\<close> and \<open>p.searchPattern\<close>. The result \<open>Some r\<close> is the returned pointer
  (\<open>r = None\<close> is nil); \<open>None\<close> means that the call never returns.
\<close>

definition findFirstHit ::
  "nat \<Rightarrow> nat list \<Rightarrow> string list \<Rightarrow> (string \<Rightarrow> bool) \<Rightarrow> Index \<Rightarrow> Index option \<Rightarrow> bool
     \<Rightarrow> Index option option" where
  "findFirstHit numCPU order reader pattern startPosition beforePosition backwards =
     (let searchStarts = searchStartsOf numCPU reader startPosition beforePosition backwards;
          worker = (\<lambda>i. u_findFirstHit reader (searchStarts ! i) pattern
                          (chunkBeforeOf searchStarts beforePosition i) backwards)
      in receiveFirst (deliver order worker (length searchStarts)))"

text \<open>The positions scanned by all chunk workers of one call of \<open>findFirstHit\<close>.\<close>

definition findFirstHit_scanned ::
  "nat \<Rightarrow> string list \<Rightarrow> (string \<Rightarrow> bool) \<Rightarrow> Index \<Rightarrow> Index option \<Rightarrow> bool \<Rightarrow> Index list" where
  "findFirstHit_scanned numCPU reader pattern startPosition beforePosition backwards =
     (let searchStarts = searchStartsOf numCPU reader startPosition beforePosition backwards
      in concat (map (\<lambda>i. u_findFirstHit_scanned reader (searchStarts ! i) pattern
                             (chunkBeforeOf searchStarts beforePosition i) backwards)
                   [0..<length searchStarts]))"

text \<open>
  The lines of a scan in scan order: from the start position up to the end of the store or
  the bound (forward), or down to line 0 or the bound (backward), the bound excluded.
\<close>

definition scanRange :: "string list \<Rightarrow> Index \<Rightarrow> Index option \<Rightarrow> bool \<Rightarrow> Index list" where
  "scanRange reader startPosition beforePosition backwards =
     (if backwards
      then rev [(case beforePosition of None \<Rightarrow> 0 | Some b \<Rightarrow> Suc b)..<Suc startPosition]
      else [startPosition..<(case beforePosition of
                               None \<Rightarrow> length reader
                             | Some b \<Rightarrow> min b (length reader))])"

text \<open>The bound, if there is one, lies strictly beyond the start in the direction of the
  scan, and a backward scan starts at a line of the store.\<close>

definition scanWellFormed :: "string list \<Rightarrow> Index \<Rightarrow> Index option \<Rightarrow> bool \<Rightarrow> bool" where
  "scanWellFormed reader startPosition beforePosition backwards =
     (if backwards
      then startPosition < length reader \<and>
           (case beforePosition of None \<Rightarrow> True | Some b \<Rightarrow> b < startPosition)
      else (case beforePosition of None \<Rightarrow> True | Some b \<Rightarrow> startPosition < b))"

text \<open>Line \<open>i\<close> of the store matches the pattern.\<close>

definition hitAt :: "string list \<Rightarrow> (string \<Rightarrow> bool) \<Rightarrow> Index \<Rightarrow> bool" where
  "hitAt reader pattern i = pattern (reader ! i)"

text \<open>Line \<open>i\<close> belongs to the range of a scan: from the start in the direction of the
  scan, inside the store, and not at or beyond the bound.\<close>

definition inScanRange :: "string list \<Rightarrow> Index \<Rightarrow> Index option \<Rightarrow> bool \<Rightarrow> Index \<Rightarrow> bool" where
  "inScanRange reader startPosition beforePosition backwards i =
     (if backwards
      then i \<le> startPosition \<and> i < length reader \<and>
           (case beforePosition of None \<Rightarrow> True | Some b \<Rightarrow> b < i)
      else startPosition \<le> i \<and> i < length reader \<and>
           (case beforePosition of None \<Rightarrow> True | Some b \<Rightarrow> i < b))"

text \<open>Every chunk worker finishes: each of the at most \<open>numCPU\<close> chunks occurs in the
  order of completion.\<close>

definition allFinish :: "nat \<Rightarrow> nat list \<Rightarrow> bool" where
  "allFinish numCPU order = list_all (\<lambda>i. i \<in> set order) [0..<numCPU]"

text \<open>A line store and a pattern for the examples: the pattern matches a line that holds
  the letter x.\<close>

definition exampleLines :: "string list" where
  "exampleLines = [''a'', ''xb'', ''c'', ''xd'', ''e'']"

definition hasX :: "string \<Rightarrow> bool" where
  "hasX line = (CHR ''x'' \<in> set line)"


section \<open>The viewport renderer (screenLines.go)\<close>

text \<open>
  A cell is a styled rune with the flag that marks the first cell of a search hit.
\<close>

record CellWithMetadata = StyledRune +
  StartsSearchHit :: bool

definition spaceCell :: "Style \<Rightarrow> CellWithMetadata" where
  "spaceCell s = \<lparr>Rune = 32, Style = s, StartsSearchHit = False\<rparr>"

text \<open>The zero value of a cell, as \<open>make([]CellWithMetadata, 1)\<close> creates it.\<close>

definition zeroCell :: CellWithMetadata where
  "zeroCell = \<lparr>Rune = 0, Style = StyleDefault, StartsSearchHit = False\<rparr>"

text \<open>
  Modelled from the spec: the scroll position type is not among the sources. Section 3 of
  the spec: a line index (the top line of the screen) and a sub-line delta; the horizontal
  offset is the pager's \<open>leftColumnZeroBased\<close>.
\<close>

record scrollPosition =
  spLineIndex :: Index
  spDeltaScreenLines :: int

text \<open>The two search modes that search.go names, and any other mode of the pager.\<close>

datatype PagerMode = PagerModeViewing | PagerModeNotFound | PagerModeOther

text \<open>
  The fields of the pager that screenLines.go and search.go read or write. \<open>screenWidth\<close>
  is the width that \<open>p.screen.Size()\<close> reports, \<open>Reader\<close> is \<open>p.Reader()\<close>, and
  \<open>searchPattern\<close> is the compiled pattern as the predicate \<open>MatchString\<close> (\<open>None\<close> is nil).
  \<open>renderLines\<close> also updates \<open>longestLineLength\<close>, a field that none of the functions
  modelled here reads; it is left out.
\<close>

record Pager =
  screenWidth :: int
  Reader :: "string list"
  searchPattern :: "(string \<Rightarrow> bool) option"
  scrollPosition :: scrollPosition
  leftColumnZeroBased :: int
  showLineNumbers :: bool
  ShowLineNumbers :: bool
  WrapLongLines :: bool
  ScrollLeftHint :: CellWithMetadata
  ScrollRightHint :: CellWithMetadata
  mode :: PagerMode
  TargetLine :: "Index option"

text \<open>
  The functions and values of the repository that the two files use and that are not among
  the sources. They are parameters of the model, collected in one record: the display width
  of a rune, \<open>Number.Format\<close>, the style of line numbers, \<open>HighlightedTokens\<close> for the active
  pattern (the cells of a line and its trailer style), \<open>wrapLine\<close>,
  \<open>getLineNumberPrefixLength\<close>, \<open>visibleHeight\<close>, and the operations of the scroll position.
\<close>

record Deps =
  runeWidth :: "rune \<Rightarrow> int"
  formatNumber :: "nat \<Rightarrow> string"
  lineNumbersStyle :: Style
  HighlightedTokens :: "(string \<Rightarrow> bool) option \<Rightarrow> string \<Rightarrow> CellWithMetadata list \<times> Style"
  wrapLine :: "int \<Rightarrow> CellWithMetadata list \<Rightarrow> CellWithMetadata list list"
  getLineNumberPrefixLength :: "Pager \<Rightarrow> nat \<Rightarrow> int"
  visibleHeight :: "Pager \<Rightarrow> int"
  lineIndexOf :: "Pager \<Rightarrow> scrollPosition \<Rightarrow> Index option"
  deltaScreenLinesOf :: "Pager \<Rightarrow> scrollPosition \<Rightarrow> int"
  NextLine :: "scrollPosition \<Rightarrow> int \<Rightarrow> scrollPosition"
  PreviousLine :: "scrollPosition \<Rightarrow> int \<Rightarrow> scrollPosition"
  NewScrollPositionFromIndex :: "Index \<Rightarrow> scrollPosition"
  getLastVisiblePosition :: "Pager \<Rightarrow> scrollPosition option"
  isScrolledToEnd :: "Pager \<Rightarrow> bool"

text \<open>
  \<open>createLinePrefix\<close>. \<open>lineNumber\<close> is the optional one-based line number. The formatted
  number is right-aligned in \<open>numberPrefixLength - 1\<close> columns and followed by a space
  (\<open>fmt.Sprintf("%*s ", ...)\<close>).
\<close>

definition createLinePrefix ::
  "Deps \<Rightarrow> nat option \<Rightarrow> int \<Rightarrow> panic + CellWithMetadata list" where
  "createLinePrefix d lineNumber numberPrefixLength =
     (if numberPrefixLength = 0 then Inr []
      else if numberPrefixLength < 0 then Inl (PanicMessage ''makeslice: cap out of range'')
      else case lineNumber of
        None \<Rightarrow> Inr (replicate (nat numberPrefixLength) (spaceCell StyleDefault))
      | Some n \<Rightarrow>
          let formatted = formatNumber d n;
              lineNumberString =
                replicate (nat (numberPrefixLength - 1) - length formatted) CHR '' ''
                  @ formatted @ '' ''
          in if int (length lineNumberString) > numberPrefixLength
             then Inl (PanicMessage ''lineNumberString longer than numberPrefixLength'')
             else Inr (map (\<lambda>digit. \<lparr>Rune = of_char digit, Style = lineNumbersStyle d,
                                        StartsSearchHit = False\<rparr>)
                         (take (nat numberPrefixLength) lineNumberString)))"

text \<open>The variables of the loop of \<open>decorateLine\<close> that finds the visible runes.\<close>

record scanState =
  firstVisibleRuneIndex :: "nat option"
  lastVisibleRuneIndex :: int
  screenColumn :: int
  cutOffRuneToTheLeft :: bool
  cutOffRuneToTheRight :: bool
  canScrollRight :: bool

text \<open>
  The loop \<open>for i, char := range contents\<close> of \<open>decorateLine\<close>, from index \<open>i\<close> on. The
  \<open>break\<close> is the branch that returns the state.
\<close>

function decorateScan ::
  "(rune \<Rightarrow> int) \<Rightarrow> int \<Rightarrow> int \<Rightarrow> CellWithMetadata list \<Rightarrow> nat \<Rightarrow> scanState \<Rightarrow> scanState" where
  "decorateScan rw left lastVisibleScreenColumn contents i st =
     (if i \<ge> length contents then st
      else
        let char = contents ! i;
            st1 = (if firstVisibleRuneIndex st = None \<and> screenColumn st \<ge> left
                   then st\<lparr>firstVisibleRuneIndex := Some i,
                           cutOffRuneToTheLeft :=
                             (if i > 0 \<and> screenColumn st > left \<and>
                                 Width rw (contents ! (i - 1)) > 1
                              then True else cutOffRuneToTheLeft st)\<rparr>
                   else st);
            screenReached = (firstVisibleRuneIndex st1 \<noteq> None);
            currentCharRightEdge = screenColumn st1 + Width rw char - 1;
            beforeRightEdge = (currentCharRightEdge \<le> lastVisibleScreenColumn)
        in if screenReached \<and> \<not> beforeRightEdge
           then st1\<lparr>canScrollRight := True,
                    cutOffRuneToTheRight :=
                      (if screenColumn st1 \<le> lastVisibleScreenColumn
                       then True else cutOffRuneToTheRight st1)\<rparr>
           else decorateScan rw left lastVisibleScreenColumn contents (Suc i)
                  ((if screenReached then st1\<lparr>lastVisibleRuneIndex := int i\<rparr> else st1)
                     \<lparr>screenColumn := screenColumn st1 + Width rw char\<rparr>))"
  by pat_completeness auto
termination
  by (relation "measure (\<lambda>(rw, left, lastCol, contents, i, st). length contents - i)") auto

declare decorateScan.simps [simp del]

text \<open>The slice expression \<open>xs[low:high]\<close>; Go panics unless \<open>0 \<le> low \<le> high \<le> len(xs)\<close>.\<close>

definition goSlice :: "'a list \<Rightarrow> int \<Rightarrow> int \<Rightarrow> panic + 'a list" where
  "goSlice xs low high =
     (if 0 \<le> low \<and> low \<le> high \<and> high \<le> int (length xs)
      then Inr (take (nat high - nat low) (drop (nat low) xs))
      else Inl SliceBoundsOutOfRange)"

text \<open>The block of \<open>decorateLine\<close> that adds the scroll left indicator.\<close>

definition addScrollLeft ::
  "(rune \<Rightarrow> int) \<Rightarrow> CellWithMetadata \<Rightarrow> CellWithMetadata list \<Rightarrow> CellWithMetadata list" where
  "addScrollLeft rw hint newLine =
     (let l1 = (if newLine = [] then [zeroCell] else newLine);
          l2 = (if Width rw (l1 ! 0) > 1
                then spaceCell (Style hint) # l1[0 := spaceCell (Style hint)]
                else l1)
      in l2[0 := hint])"

text \<open>The block that adds the scroll right indicator; indexing the last cell of an empty
  line panics.\<close>

definition addScrollRight ::
  "(rune \<Rightarrow> int) \<Rightarrow> CellWithMetadata \<Rightarrow> CellWithMetadata list \<Rightarrow> panic + CellWithMetadata list"
  where
  "addScrollRight rw hint newLine =
     (if newLine = [] then Inl IndexOutOfRange
      else
        let l1 = (if Width rw (newLine ! (length newLine - 1)) > 1
                  then newLine[length newLine - 1 := spaceCell (Style hint)]
                         @ [spaceCell (Style hint)]
                  else newLine)
        in Inr (l1[length l1 - 1 := hint]))"

text \<open>\<open>Pager.decorateLine\<close>.\<close>

definition decorateLine ::
  "Deps \<Rightarrow> Pager \<Rightarrow> nat option \<Rightarrow> int \<Rightarrow> CellWithMetadata list \<Rightarrow> panic + CellWithMetadata list"
  where
  "decorateLine d p lineNumberToShow numberPrefixLength contents =
     (case createLinePrefix d lineNumberToShow numberPrefixLength of
        Inl e \<Rightarrow> Inl e
      | Inr linePrefix \<Rightarrow>
          let width = screenWidth p;
              lastVisibleScreenColumn = leftColumnZeroBased p + width - 1;
              st = decorateScan (runeWidth d) (leftColumnZeroBased p) lastVisibleScreenColumn
                     contents 0
                     \<lparr>firstVisibleRuneIndex = None, lastVisibleRuneIndex = - 1,
                      screenColumn = numberPrefixLength, cutOffRuneToTheLeft = False,
                      cutOffRuneToTheRight = False, canScrollRight = False\<rparr>;
              newLine1 = (if cutOffRuneToTheLeft st
                          then spaceCell (Style (ScrollLeftHint p)) # linePrefix
                          else linePrefix)
          in case (case firstVisibleRuneIndex st of
                     None \<Rightarrow> Inr []
                   | Some f \<Rightarrow> goSlice contents (int f) (lastVisibleRuneIndex st + 1)) of
               Inl e \<Rightarrow> Inl e
             | Inr visible \<Rightarrow>
                 let newLine2 = newLine1 @ visible;
                     newLine3 = (if cutOffRuneToTheRight st
                                 then newLine2 @ [spaceCell (Style (ScrollRightHint p))]
                                 else newLine2);
                     canScrollLeft = (leftColumnZeroBased p > 0);
                     newLine4 = (if canScrollLeft \<and> length contents > 0
                                 then addScrollLeft (runeWidth d) (ScrollLeftHint p) newLine3
                                 else newLine3)
                 in if canScrollRight st
                    then addScrollRight (runeWidth d) (ScrollRightHint p) newLine4
                    else Inr newLine4)"

text \<open>The sum of the display widths of the cells of a row.\<close>

definition rowWidth :: "(rune \<Rightarrow> int) \<Rightarrow> 'a StyledRune_scheme list \<Rightarrow> int" where
  "rowWidth rw row = sum_list (map (Width rw) row)"


section \<open>Serializing the cell grid (twin, renderLine and showNLines)\<close>

text \<open>
  \<open>withoutHiddenRunes\<close>: the loop over the indices of the row, from index \<open>i\<close> on, with
  the result collected so far.
\<close>

function withoutHiddenRunes_loop ::
  "(rune \<Rightarrow> int) \<Rightarrow> StyledRune list \<Rightarrow> nat \<Rightarrow> StyledRune list \<Rightarrow> StyledRune list" where
  "withoutHiddenRunes_loop rw rs i result =
     (if i < length rs
      then (if i > 0 \<and> Width rw (rs ! (i - 1)) = 2
            then withoutHiddenRunes_loop rw rs (Suc i) result
            else withoutHiddenRunes_loop rw rs (Suc i) (result @ [rs ! i]))
      else result)"
  by pat_completeness auto
termination
  by (relation "measure (\<lambda>(rw, rs, i, result). length rs - i)") auto

declare withoutHiddenRunes_loop.simps [simp del]

definition withoutHiddenRunes :: "(rune \<Rightarrow> int) \<Rightarrow> StyledRune list \<Rightarrow> StyledRune list" where
  "withoutHiddenRunes rw rs = withoutHiddenRunes_loop rw rs 0 []"

text \<open>A cell of a row is hidden when the cell before it holds a rune of width 2.\<close>

definition hiddenAt :: "(rune \<Rightarrow> int) \<Rightarrow> StyledRune list \<Rightarrow> nat \<Rightarrow> bool" where
  "hiddenAt rw rs i = (i > 0 \<and> Width rw (rs ! (i - 1)) = 2)"

text \<open>
  The loop of \<open>renderLine\<close> that strips trailing whitespace, entered with index
  \<open>lastSignificantCellIndex\<close>. The result is the index at which the loop stops and the
  background of the trailer.
\<close>

function stripTrailing :: "StyledRune list \<Rightarrow> int \<Rightarrow> Color \<Rightarrow> bool \<Rightarrow> int \<times> Color" where
  "stripTrailing row lastSignificantCellIndex trailerBg trailerBgSet =
     (if lastSignificantCellIndex < 0 then (lastSignificantCellIndex, trailerBg)
      else
        let lastCell = row ! nat lastSignificantCellIndex in
        if Rune lastCell \<noteq> 32 then (lastSignificantCellIndex, trailerBg)
        else if has (attrs (Style lastCell)) AttrReverse \<and> fg (Style lastCell) = ColorDefault
        then (lastSignificantCellIndex, trailerBg)
        else
          let whiteSpaceBg = (if has (attrs (Style lastCell)) AttrReverse
                              then fg (Style lastCell) else bg (Style lastCell));
              trailerBg' = (if \<not> trailerBgSet then whiteSpaceBg else trailerBg)
          in if whiteSpaceBg \<noteq> trailerBg' then (lastSignificantCellIndex, trailerBg')
             else stripTrailing row (lastSignificantCellIndex - 1) trailerBg' True)"
  by pat_completeness auto
termination
  by (relation "measure (\<lambda>(row, i, c, b). nat (i + 1))") auto

declare stripTrailing.simps [simp del]

text \<open>
  What \<open>renderLine\<close> writes to its string builder, one item per write. \<open>Lit\<close> is a literal
  string, \<open>PutRune\<close> a rune. \<open>Style.RenderUpdateFrom\<close> is not among the sources: the
  escape sequence that \<open>style.RenderUpdateFrom(lastStyle, colorCount)\<close> returns is kept
  symbolic as \<open>StyleUpdate style lastStyle colorCount\<close>.
\<close>

datatype ColorCount = ColorCount8 | ColorCount16 | ColorCount256 | ColorCount24bit

datatype Out = Lit string | PutRune rune | StyleUpdate Style Style ColorCount

definition resetStyle :: Out where
  "resetStyle = Lit [CHR 0x1B, CHR ''['', CHR ''m'']"

definition clearToEOL :: Out where
  "clearToEOL = Lit [CHR 0x1B, CHR ''['', CHR ''K'']"

definition cursorHome :: Out where
  "cursorHome = Lit (CHR 0x1B # ''[1;1H'')"

definition newline :: Out where
  "newline = Lit [CHR 0x0D, CHR 0x0A]"

definition unprintableStyle :: Style where
  "unprintableStyle = \<lparr>fg = Color16 7, bg = Color16 1, attrs = {AttrBold}, hyperlinkURL = None\<rparr>"

text \<open>The loop of \<open>renderLine\<close> over the cells it writes; \<open>printable\<close> is twin's
  \<open>Printable\<close>, which is not among the sources. The result is what is written and the last
  style.\<close>

fun writeCells ::
  "(rune \<Rightarrow> bool) \<Rightarrow> ColorCount \<Rightarrow> StyledRune list \<Rightarrow> Style \<Rightarrow> Out list \<times> Style" where
  "writeCells printable cc [] lastStyle = ([], lastStyle)"
| "writeCells printable cc (cell # row) lastStyle =
     (let style = (if \<not> printable (Rune cell) then unprintableStyle else Style cell);
          runeToWrite = (if \<not> printable (Rune cell) then 0x3F else Rune cell);
          update = (if style \<noteq> lastStyle then [StyleUpdate style lastStyle cc] else []);
          (rest, final) = writeCells printable cc row style
      in (update @ [PutRune runeToWrite] @ rest, final))"

text \<open>\<open>renderLine\<close> of twin: what is written, and the number of cells that went into it.\<close>

definition renderLine ::
  "(rune \<Rightarrow> int) \<Rightarrow> (rune \<Rightarrow> bool) \<Rightarrow> StyledRune list \<Rightarrow> int \<Rightarrow> ColorCount \<Rightarrow> Out list \<times> int"
  where
  "renderLine rw printable row0 width terminalColorCount =
     (let row1 = withoutHiddenRunes rw row0;
          (lastSignificantCellIndex, trailerBg) =
             stripTrailing row1 (int (length row1) - 1) ColorDefault False;
          row = take (nat (lastSignificantCellIndex + 1)) row1;
          (body, lastStyle) = writeCells printable terminalColorCount row StyleDefault;
          lastStyleMinusHyperlink = WithHyperlink lastStyle None;
          unlink = (if lastStyleMinusHyperlink \<noteq> lastStyle
                    then [StyleUpdate lastStyleMinusHyperlink lastStyle terminalColorCount]
                    else []);
          clear = (if int (length row) < width
                   then [StyleUpdate (WithBackground StyleDefault trailerBg)
                           lastStyleMinusHyperlink terminalColorCount,
                         clearToEOL]
                   else [])
      in (resetStyle # body @ unlink @ clear, int (length row)))"

text \<open>The loop \<open>for row := range height\<close> of \<open>showNLines\<close>, from row \<open>row\<close> on;
  \<open>screen.cells[row]\<close> panics when the grid has no such row.\<close>

function showRows ::
  "(rune \<Rightarrow> int) \<Rightarrow> (rune \<Rightarrow> bool) \<Rightarrow> ColorCount \<Rightarrow> StyledRune list list \<Rightarrow> int \<Rightarrow> int \<Rightarrow> int
     \<Rightarrow> panic + Out list" where
  "showRows rw printable cc cells width height row =
     (if row \<ge> height \<or> row < 0 then Inr []
      else if nat row \<ge> length cells then Inl IndexOutOfRange
      else
        let (rendered, lineLength) = renderLine rw printable (cells ! nat row) width cc;
            wasLastLine = (row = height - 1);
            eol = (if lineLength \<le> int (length (cells ! nat row)) \<and> \<not> wasLastLine
                   then [newline] else [])
        in case showRows rw printable cc cells width height (row + 1) of
             Inl e \<Rightarrow> Inl e
           | Inr rest \<Rightarrow> Inr (rendered @ eol @ rest))"
  by pat_completeness auto
termination
  by (relation "measure (\<lambda>(rw, printable, cc, cells, width, height, row). nat (height - row))")
     auto

declare showRows.simps [simp del]

text \<open>\<open>UnixScreen.showNLines\<close>: the string handed to \<open>screen.write\<close>, as the list of the
  writes that built it.\<close>

definition showNLines ::
  "(rune \<Rightarrow> int) \<Rightarrow> (rune \<Rightarrow> bool) \<Rightarrow> ColorCount \<Rightarrow> StyledRune list list \<Rightarrow> int \<Rightarrow> int \<Rightarrow> bool
     \<Rightarrow> panic + Out list" where
  "showNLines rw printable cc cells width height clearFirst =
     (case showRows rw printable cc cells width height 0 of
        Inl e \<Rightarrow> Inl e
      | Inr out \<Rightarrow> Inr ((if clearFirst then [cursorHome] else []) @ out))"

text \<open>The background that a blank cell shows: its foreground when the style is reversed.\<close>

definition shownBackground :: "StyledRune \<Rightarrow> Color" where
  "shownBackground c =
     (if has (attrs (Style c)) AttrReverse then fg (Style c) else bg (Style c))"

text \<open>A blank cell that \<open>renderLine\<close> can fold into a trailer of background \<open>tb\<close>: its
  background is known (not a reversed default foreground) and is \<open>tb\<close>.\<close>

definition trimmable :: "StyledRune \<Rightarrow> Color \<Rightarrow> bool" where
  "trimmable c tb =
     (Rune c = 32 \<and> \<not> (has (attrs (Style c)) AttrReverse \<and> fg (Style c) = ColorDefault) \<and>
      shownBackground c = tb)"

text \<open>The rune that \<open>renderLine\<close> writes for a cell.\<close>

definition writtenRune :: "(rune \<Rightarrow> bool) \<Rightarrow> StyledRune \<Rightarrow> rune" where
  "writtenRune printable c = (if printable (Rune c) then Rune c else 0x3F)"

text \<open>The runes among the writes.\<close>

fun putRunes :: "Out list \<Rightarrow> rune list" where
  "putRunes [] = []"
| "putRunes (PutRune r # out) = r # putRunes out"
| "putRunes (x # out) = putRunes out"

text \<open>For the examples: every rune from U+0020 on, except U+007F, is printable.\<close>

definition examplePrintable :: "rune \<Rightarrow> bool" where
  "examplePrintable r = (32 \<le> r \<and> r \<noteq> 127)"


section \<open>Properties: terminal background colour response\<close>

lemmas bg_defs = parseTerminalBgColorResponse_def bgExample_def HasPrefix_def TrimPrefix_def
  HasSuffix_def TrimSuffix_def bgPrefix_def bgSuffix1_def bgSuffix2_def sampleResponse1_def
  sampleResponse2_def ParseUint16_def hexVal_def Let_def

lemma bg_full:
  "parseTerminalBgColorResponse bgExample = (Some (Color24Bit 0x12 0x56 0x9a), True)"
  by (simp add: bg_defs suffix_def)

lemma bg_long_prefixes:
  "\<forall>n\<in>{9..<24}. parseTerminalBgColorResponse (take n bgExample) = (None, True)"
proof -
  have "{9..<24::nat} = set [9..<24]" by (simp only: set_upt)
  also have "[9..<24::nat] = [9,10,11,12,13,14,15,16,17,18,19,20,21,22,23]"
    by (simp add: upt_rec)
  finally show ?thesis
    by (simp add: bg_defs suffix_def Cons_eq_append_conv)
qed

lemma bg_short_prefixes:
  "\<forall>n\<in>{1..<9}. parseTerminalBgColorResponse (take n bgExample) = (None, False)"
proof -
  have "{1..<9::nat} = set [1..<9]" by (simp only: set_upt)
  also have "[1..<9::nat] = [1,2,3,4,5,6,7,8]" by (simp add: upt_rec)
  finally show ?thesis
    by (simp add: bg_defs)
qed

text \<open>
  C6. The complete response \<open>ESC ] 11;rgb:1234/5678/9abc BEL\<close> (24 bytes) parses to the
  24-bit colour (0x12, 0x56, 0x9a) with the valid flag set. A strict prefix that still holds
  the whole 9-byte header \<open>ESC ] 11;rgb:\<close> is reported incomplete but valid. A non-empty
  strict prefix shorter than the header fails the header test, which comes first, and is
  reported invalid: the claim asks for incomplete-but-valid there too.
\<close>

theorem parseTerminalBgColorResponse_example:
  "length bgExample = 24 \<and>
   parseTerminalBgColorResponse bgExample = (Some (Color24Bit 0x12 0x56 0x9a), True) \<and>
   (\<forall>n\<in>{9..<24}. parseTerminalBgColorResponse (take n bgExample) = (None, True)) \<and>
   (\<forall>n\<in>{1..<9}. parseTerminalBgColorResponse (take n bgExample) = (None, False))"
  using bg_full bg_long_prefixes bg_short_prefixes by (simp add: bgExample_def)

theorem parseTerminalBgColorResponse_example_witness:
  "(5::nat) \<in> {1..<9} \<and>
   parseTerminalBgColorResponse (CHR 0x1B # '']11;'') = (None, False) \<and>
   (12::nat) \<in> {9..<24} \<and>
   parseTerminalBgColorResponse (CHR 0x1B # '']11;rgb:123'') = (None, True)"
proof -
  have a: "(5::nat) \<in> {1..<9}" and b: "(12::nat) \<in> {9..<24}" by simp_all
  from parseTerminalBgColorResponse_example a
  have "parseTerminalBgColorResponse (take 5 bgExample) = (None, False)" by blast
  moreover from parseTerminalBgColorResponse_example b
  have "parseTerminalBgColorResponse (take 12 bgExample) = (None, True)" by blast
  ultimately show ?thesis using a b by (simp add: bgExample_def)
qed

section \<open>Properties: SetCell\<close>

lemma SetCell_returns_width:
  "SetCell rw dims cells column row r = Inr (n, cells') \<Longrightarrow> n = Width rw r"
  by (auto simp: SetCell_def Let_def split: if_splits sum.splits)

lemma SetCell_out_of_bounds:
  "column < 0 \<or> row < 0 \<or> column \<ge> fst dims \<or> row \<ge> snd dims \<Longrightarrow>
   SetCell rw dims cells column row r = Inr (Width rw r, cells)"
  by (auto simp: SetCell_def Let_def)

lemma storeCell_ok:
  "gridOfSize dims cells \<Longrightarrow> 0 \<le> column \<Longrightarrow> column < fst dims \<Longrightarrow> 0 \<le> row \<Longrightarrow>
   row < snd dims \<Longrightarrow>
   storeCell cells row column v = Inr (cells[nat row := (cells ! nat row)[nat column := v]])"
proof -
  assume g: "gridOfSize dims cells" and c: "0 \<le> column" "column < fst dims"
    and r: "0 \<le> row" "row < snd dims"
  from g r have rl: "nat row < length cells" unfolding gridOfSize_def by linarith
  with g have "int (length (cells ! nat row)) = fst dims"
    by (simp add: gridOfSize_def list_all_length)
  with c have "nat column < length (cells ! nat row)" by linarith
  with rl c r show ?thesis by (simp add: storeCell_def)
qed

text \<open>
  C9. Whenever \<open>SetCell\<close> returns, it returns the display width of the given rune. At a
  position outside the grid (negative column or row, column at or past the width, row at or
  past the height) the grid is returned unchanged. At a position inside a grid of the
  reported size, the cell stored is the rune itself when it fits, and a blank (U+0020) with
  the rune's style when the rune's width would pass the right edge; with a blank of width 1
  the stored cell never passes the right edge.
\<close>

theorem SetCell_spec:
  "(\<forall>n cells'. SetCell rw dims cells column row r = Inr (n, cells') \<longrightarrow> n = Width rw r) \<and>
   (column < 0 \<or> row < 0 \<or> column \<ge> fst dims \<or> row \<ge> snd dims \<longrightarrow>
      SetCell rw dims cells column row r = Inr (Width rw r, cells)) \<and>
   (gridOfSize dims cells \<and> 0 \<le> column \<and> column < fst dims \<and> 0 \<le> row \<and> row < snd dims \<longrightarrow>
      (let stored = (if column + Width rw r > fst dims then NewStyledRune 32 (Style r) else r) in
       SetCell rw dims cells column row r =
         Inr (Width rw r, cells[nat row := (cells ! nat row)[nat column := stored]]) \<and>
       (column + Width rw r \<le> fst dims \<longrightarrow> stored = r) \<and>
       (rw 32 = 1 \<longrightarrow> column + Width rw stored \<le> fst dims)))"
proof (intro conjI)
  show "\<forall>n cells'. SetCell rw dims cells column row r = Inr (n, cells') \<longrightarrow> n = Width rw r"
    using SetCell_returns_width by blast
  show "column < 0 \<or> row < 0 \<or> column \<ge> fst dims \<or> row \<ge> snd dims \<longrightarrow>
      SetCell rw dims cells column row r = Inr (Width rw r, cells)"
    using SetCell_out_of_bounds by blast
  show "gridOfSize dims cells \<and> 0 \<le> column \<and> column < fst dims \<and> 0 \<le> row \<and> row < snd dims \<longrightarrow>
      (let stored = (if column + Width rw r > fst dims then NewStyledRune 32 (Style r) else r) in
       SetCell rw dims cells column row r =
         Inr (Width rw r, cells[nat row := (cells ! nat row)[nat column := stored]]) \<and>
       (column + Width rw r \<le> fst dims \<longrightarrow> stored = r) \<and>
       (rw 32 = 1 \<longrightarrow> column + Width rw stored \<le> fst dims))"
    by (auto simp: storeCell_ok SetCell_def Let_def Width_def NewStyledRune_def)
qed

theorem SetCell_spec_witness:
  "gridOfSize (3, 2) exampleGrid \<and> exampleWidth 32 = 1 \<and>
   SetCell exampleWidth (3, 2) exampleGrid 2 1 wideRune =
     Inr (2, [replicate 3 blankCell,
              [blankCell, blankCell, NewStyledRune 32 (StyleDefault\<lparr>attrs := {AttrBold}\<rparr>)]]) \<and>
   SetCell exampleWidth (3, 2) exampleGrid 1 0 wideRune =
     Inr (2, [[blankCell, wideRune, blankCell], replicate 3 blankCell]) \<and>
   SetCell exampleWidth (3, 2) exampleGrid 3 1 wideRune = Inr (2, exampleGrid) \<and>
   SetCell exampleWidth (3, 2) exampleGrid (- 1) 0 wideRune = Inr (2, exampleGrid)"
proof -
  have g: "gridOfSize (3, 2) exampleGrid"
    by (simp add: gridOfSize_def exampleGrid_def numeral_2_eq_2)
  have w: "exampleWidth 32 = 1" by (simp add: exampleWidth_def)
  have ww: "Width exampleWidth wideRune = 2" "Style wideRune = StyleDefault\<lparr>attrs := {AttrBold}\<rparr>"
    by (simp_all add: exampleWidth_def Width_def wideRune_def NewStyledRune_def)
  have e: "exampleGrid = [replicate 3 blankCell, replicate 3 blankCell]"
    by (simp add: exampleGrid_def numeral_2_eq_2)
  have r3: "replicate 3 blankCell = [blankCell, blankCell, blankCell]"
    by (simp add: numeral_3_eq_3)
  from SetCell_spec [where rw = exampleWidth and dims = "(3, 2)" and cells = exampleGrid
      and column = 2 and row = 1 and r = wideRune]
  have a: "SetCell exampleWidth (3, 2) exampleGrid 2 1 wideRune =
     Inr (2, [replicate 3 blankCell,
              [blankCell, blankCell, NewStyledRune 32 (StyleDefault\<lparr>attrs := {AttrBold}\<rparr>)]])"
    using g w by (simp add: ww Let_def e r3)
  from SetCell_spec [where rw = exampleWidth and dims = "(3, 2)" and cells = exampleGrid
      and column = 1 and row = 0 and r = wideRune]
  have b: "SetCell exampleWidth (3, 2) exampleGrid 1 0 wideRune =
     Inr (2, [[blankCell, wideRune, blankCell], replicate 3 blankCell])"
    using g w by (simp add: ww Let_def e r3)
  from SetCell_spec [where rw = exampleWidth and dims = "(3, 2)" and cells = exampleGrid
      and column = 3 and row = 1 and r = wideRune]
  have c: "SetCell exampleWidth (3, 2) exampleGrid 3 1 wideRune = Inr (2, exampleGrid)"
    by (simp add: ww)
  from SetCell_spec [where rw = exampleWidth and dims = "(3, 2)" and cells = exampleGrid
      and column = "- 1" and row = 0 and r = wideRune]
  have d: "SetCell exampleWidth (3, 2) exampleGrid (- 1) 0 wideRune = Inr (2, exampleGrid)"
    by (simp add: ww)
  from g w a b c d show ?thesis by simp
qed

section \<open>Properties: decoding input events\<close>

lemma find_noKey:
  "noKeyMatches keys s \<Longrightarrow> find (\<lambda>(k, c). HasPrefix s k) keys = None"
  by (auto simp: noKeyMatches_def find_None_iff list_all_iff)

lemma mouse_wheel:
  "mouseEventRegex (wheelExample @ rest) =
     Some [wheelExample, runes ''65'', runes ''10'', runes ''5'']"
  by (simp add: mouseEventRegex_def wheelExample_def runes_def literal_def digitGroup_def
      isDigit_def)

lemma mouse_wheel64:
  "mouseEventRegex (wheel64Example @ rest) =
     Some [wheel64Example, runes ''64'', runes ''10'', runes ''5'']"
  by (simp add: mouseEventRegex_def wheel64Example_def runes_def literal_def digitGroup_def
      isDigit_def)

lemma consume_lone_escape:
  "noKeyMatches keys [0x1B] \<Longrightarrow>
   consumeEncodedEvent keys [0x1B] = (Some (EventKeyCode KeyEscape), [])"
  by (simp add: consumeEncodedEvent_def find_noKey mouseEventRegex_def literal_def)

lemma consume_wheel65:
  assumes "noKeyMatches keys (wheelExample @ rest)"
  shows "consumeEncodedEvent keys (wheelExample @ rest) = (Some (EventMouse MouseWheelDown), rest)"
proof -
  have "runes ''65'' \<noteq> runes ''64''" by (simp add: runes_def)
  moreover have "TrimPrefix (wheelExample @ rest) wheelExample = rest"
    by (simp add: TrimPrefix_def HasPrefix_def)
  ultimately show ?thesis
    using assms by (simp add: consumeEncodedEvent_def find_noKey mouse_wheel)
qed

lemma consume_wheel64:
  assumes "noKeyMatches keys (wheel64Example @ rest)"
  shows "consumeEncodedEvent keys (wheel64Example @ rest) = (Some (EventMouse MouseWheelUp), rest)"
proof -
  have "TrimPrefix (wheel64Example @ rest) wheel64Example = rest"
    by (simp add: TrimPrefix_def HasPrefix_def)
  then show ?thesis
    using assms by (simp add: consumeEncodedEvent_def find_noKey mouse_wheel64)
qed

lemma noKey_examples:
  "noKeyMatches exampleKeys [0x1B]"
  "noKeyMatches exampleKeys (wheelExample @ runes ''q'')"
  "noKeyMatches exampleKeys (wheel64Example @ runes ''q'')"
  "noKeyMatches exampleKeys unknownThenKey"
  "noKeyMatches exampleKeys buttonThenKey"
  by (simp_all add: noKeyMatches_def exampleKeys_def HasPrefix_def wheelExample_def
      wheel64Example_def unknownThenKey_def buttonThenKey_def runes_def)

text \<open>
  C7. With a key table none of whose sequences starts the input: a lone ESC decodes to the
  Escape key code with nothing left over. Input that begins with \<open>ESC[<65;10;5M\<close> is consumed
  up to the \<open>M\<close> and the rest is left untouched, but the event is wheel-down: the code maps
  button 64 to wheel-up and button 65 to wheel-down, where the claim (and the comment above
  \<open>mouseEventRegex\<close>) call 65 wheel-up.
\<close>

theorem consumeEncodedEvent_examples:
  "(noKeyMatches keys [0x1B] \<longrightarrow>
      consumeEncodedEvent keys [0x1B] = (Some (EventKeyCode KeyEscape), [])) \<and>
   (noKeyMatches keys (wheelExample @ rest) \<longrightarrow>
      consumeEncodedEvent keys (wheelExample @ rest) = (Some (EventMouse MouseWheelDown), rest)) \<and>
   (noKeyMatches keys (wheel64Example @ rest) \<longrightarrow>
      consumeEncodedEvent keys (wheel64Example @ rest) = (Some (EventMouse MouseWheelUp), rest))"
  using consume_lone_escape consume_wheel65 consume_wheel64 by blast

theorem consumeEncodedEvent_examples_witness:
  "noKeyMatches exampleKeys [0x1B] \<and>
   consumeEncodedEvent exampleKeys [0x1B] = (Some (EventKeyCode KeyEscape), []) \<and>
   noKeyMatches exampleKeys (wheelExample @ runes ''q'') \<and>
   consumeEncodedEvent exampleKeys (0x1B # runes ''[<65;10;5Mq'') =
     (Some (EventMouse MouseWheelDown), runes ''q'') \<and>
   noKeyMatches exampleKeys (wheel64Example @ runes ''q'') \<and>
   consumeEncodedEvent exampleKeys (0x1B # runes ''[<64;10;5Mq'') =
     (Some (EventMouse MouseWheelUp), runes ''q'')"
proof -
  note t = consumeEncodedEvent_examples [where keys = exampleKeys and rest = "runes ''q''"]
  from t noKey_examples(1)
  have a: "consumeEncodedEvent exampleKeys [0x1B] = (Some (EventKeyCode KeyEscape), [])"
    by blast
  from t noKey_examples(2)
  have b: "consumeEncodedEvent exampleKeys (wheelExample @ runes ''q'') =
     (Some (EventMouse MouseWheelDown), runes ''q'')"
    by blast
  from t noKey_examples(3)
  have c: "consumeEncodedEvent exampleKeys (wheel64Example @ runes ''q'') =
     (Some (EventMouse MouseWheelUp), runes ''q'')"
    by blast
  from a b c noKey_examples(1,2,3) show ?thesis
    by (simp add: wheelExample_def wheel64Example_def runes_def)
qed

text \<open>
  C10. Input that starts with ESC, holds at least one more rune, is started by no sequence
  of the key table, and either does not match the mouse pattern or matches it with a button
  other than 64 and 65, yields no event and an empty remainder: everything after the
  unrecognised sequence is discarded with it.
\<close>

theorem consumeEncodedEvent_discards:
  assumes "rest \<noteq> []" and "noKeyMatches keys (0x1B # rest)"
    and "mouseEventRegex (0x1B # rest) = None \<or>
         (\<exists>m. mouseEventRegex (0x1B # rest) = Some m \<and>
              m ! 1 \<noteq> runes ''64'' \<and> m ! 1 \<noteq> runes ''65'')"
  shows "consumeEncodedEvent keys (0x1B # rest) = (None, [])"
  using assms by (auto simp: consumeEncodedEvent_def find_noKey split: option.splits)

theorem consumeEncodedEvent_discards_witness:
  "unknownThenKey = 0x1B # runes ''[Zq'' @ 0x1B # runes ''[A'' \<and>
   mouseEventRegex unknownThenKey = None \<and>
   consumeEncodedEvent exampleKeys unknownThenKey = (None, []) \<and>
   consumeEncodedEvent exampleKeys (0x1B # runes ''[A'') = (Some (EventKeyCode (Key 1)), []) \<and>
   buttonThenKey = 0x1B # runes ''[<0;10;5M'' @ 0x1B # runes ''[A'' \<and>
   mouseEventRegex buttonThenKey =
     Some [0x1B # runes ''[<0;10;5M'', runes ''0'', runes ''10'', runes ''5''] \<and>
   consumeEncodedEvent exampleKeys buttonThenKey = (None, [])"
proof -
  have m1: "mouseEventRegex unknownThenKey = None"
    by (simp add: mouseEventRegex_def unknownThenKey_def runes_def literal_def digitGroup_def
        isDigit_def)
  have m2: "mouseEventRegex buttonThenKey =
     Some [0x1B # runes ''[<0;10;5M'', runes ''0'', runes ''10'', runes ''5'']"
    by (simp add: mouseEventRegex_def buttonThenKey_def runes_def literal_def digitGroup_def
        isDigit_def)
  have u: "unknownThenKey = 0x1B # (runes ''[Zq'' @ 0x1B # runes ''[A'')"
    and b: "buttonThenKey = 0x1B # (runes ''[<0;10;5M'' @ 0x1B # runes ''[A'')"
    by (simp_all add: unknownThenKey_def buttonThenKey_def runes_def)
  have "consumeEncodedEvent exampleKeys (0x1B # (runes ''[Zq'' @ 0x1B # runes ''[A'')) = (None, [])"
    using m1 noKey_examples(4) unfolding u
    by (intro consumeEncodedEvent_discards) (simp_all add: runes_def)
  moreover
  have "consumeEncodedEvent exampleKeys (0x1B # (runes ''[<0;10;5M'' @ 0x1B # runes ''[A'')) =
     (None, [])"
    using m2 noKey_examples(5) unfolding b
    by (intro consumeEncodedEvent_discards) (simp_all add: runes_def)
  moreover
  have "consumeEncodedEvent exampleKeys (0x1B # runes ''[A'') = (Some (EventKeyCode (Key 1)), [])"
    by (simp add: consumeEncodedEvent_def exampleKeys_def HasPrefix_def TrimPrefix_def runes_def)
  ultimately show ?thesis using m1 m2 u b by (simp add: runes_def)
qed


section \<open>Properties: the parallel search\<close>

lemma find_append_if:
  "find P (xs @ ys) = (case find P xs of None \<Rightarrow> find P ys | Some x \<Rightarrow> Some x)"
  by (induction xs) auto


lemma worker_forward:
  assumes "case b of None \<Rightarrow> True | Some b' \<Rightarrow> s < b'"
  shows "u_findFirstHit reader s pat b False =
         find (hitAt reader pat) (scanRange reader s b False)"
  using assms
proof (induction "length reader - s" arbitrary: s)
  case 0
  then have "GetLine reader s = None" by (simp add: GetLine_def)
  moreover from 0 have "scanRange reader s b False = []"
    by (auto simp: scanRange_def split: option.splits)
  ultimately show ?case by (subst u_findFirstHit.simps) simp
next
  case (Suc d)
  then have lt: "s < length reader" by simp
  let ?u = "case b of None \<Rightarrow> length reader | Some b' \<Rightarrow> min b' (length reader)"
  from lt Suc.prems have u: "s < ?u" by (auto split: option.splits)
  then have r: "scanRange reader s b False = s # [Suc s..<?u]"
    by (simp add: scanRange_def upt_conv_Cons)
  show ?case
  proof (cases "pat (reader ! s)")
    case True
    with lt r show ?thesis
      by (subst u_findFirstHit.simps) (simp add: GetLine_def hitAt_def)
  next
    case False
    have n1: "NonWrappingAdd s 1 = Suc s" by (simp add: NonWrappingAdd_def)
    show ?thesis
    proof (cases "b = Some (Suc s)")
      case True
      with lt r False n1 show ?thesis
        by (subst u_findFirstHit.simps) (simp add: GetLine_def hitAt_def)
    next
      case nb: False
      with Suc.prems have p: "case b of None \<Rightarrow> True | Some b' \<Rightarrow> Suc s < b'"
        by (auto split: option.splits)
      from Suc.hyps(2) have "d = length reader - Suc s" by simp
      from Suc.hyps(1) [OF this p]
      have "u_findFirstHit reader (Suc s) pat b False =
            find (hitAt reader pat) (scanRange reader (Suc s) b False)" .
      moreover have "scanRange reader (Suc s) b False = [Suc s..<?u]"
        by (simp add: scanRange_def)
      ultimately show ?thesis using lt r False nb n1
        by (subst u_findFirstHit.simps) (simp add: GetLine_def hitAt_def)
    qed
  qed
qed

lemma worker_backward:
  assumes "s < length reader" "case b of None \<Rightarrow> True | Some b' \<Rightarrow> b' < s"
  shows "u_findFirstHit reader s pat b True =
         find (hitAt reader pat) (scanRange reader s b True)"
  using assms
proof (induction s)
  case 0
  then have b: "b = None" by (cases b) auto
  then have "scanRange reader 0 b True = [0]" by (simp add: scanRange_def)
  with 0 show ?case
    by (subst u_findFirstHit.simps) (simp add: GetLine_def hitAt_def)
next
  case (Suc s)
  let ?lo = "case b of None \<Rightarrow> 0 | Some b' \<Rightarrow> Suc b'"
  from Suc.prems have lo: "?lo \<le> Suc s" by (auto split: option.splits)
  then have r: "scanRange reader (Suc s) b True = Suc s # rev [?lo..<Suc s]"
    by (simp add: scanRange_def)
  have n: "NonWrappingAdd (Suc s) (- 1) = s" by (simp add: NonWrappingAdd_def)
  show ?case
  proof (cases "pat (reader ! Suc s)")
    case True
    with Suc.prems r show ?thesis
      by (subst u_findFirstHit.simps) (simp add: GetLine_def hitAt_def)
  next
    case False
    show ?thesis
    proof (cases "b = Some s")
      case True
      with Suc.prems r False n show ?thesis
        by (subst u_findFirstHit.simps) (simp add: GetLine_def hitAt_def)
    next
      case nb: False
      with Suc.prems have p: "case b of None \<Rightarrow> True | Some b' \<Rightarrow> b' < s"
        by (auto split: option.splits)
      from Suc.prems have "s < length reader" by simp
      from Suc.IH [OF this p]
      have "u_findFirstHit reader s pat b True =
            find (hitAt reader pat) (scanRange reader s b True)" .
      moreover have "scanRange reader s b True = rev [?lo..<Suc s]"
        by (simp add: scanRange_def)
      ultimately show ?thesis using Suc.prems r False nb n
        by (subst u_findFirstHit.simps) (simp add: GetLine_def hitAt_def)
    qed
  qed
qed


lemma deliver_step_length:
  "length (fold (\<lambda>i ch. if i < n then ch[i := Some (w i)] else ch) order ch) = length ch"
  by (induction order arbitrary: ch) auto

lemma deliver_step_nth:
  "i < length ch \<Longrightarrow> length ch = n \<Longrightarrow>
   fold (\<lambda>i ch. if i < n then ch[i := Some (w i)] else ch) order ch ! i =
     (if i \<in> set order then Some (w i) else ch ! i)"
proof (induction order arbitrary: ch)
  case Nil
  then show ?case by simp
next
  case (Cons a order)
  let ?ch = "if a < n then ch[a := Some (w a)] else ch"
  have "length ?ch = n" "i < length ?ch" using Cons.prems by auto
  from Cons.IH [OF this(2) this(1)] Cons.prems show ?case
    by (auto simp: nth_list_update)
qed

lemma deliver_all:
  assumes "\<forall>i<n. i \<in> set order"
  shows "deliver order w n = map (\<lambda>i. Some (w i)) [0..<n]"
proof (rule nth_equalityI)
  show "length (deliver order w n) = length (map (\<lambda>i. Some (w i)) [0..<n])"
    by (simp add: deliver_def deliver_step_length)
next
  fix i assume "i < length (deliver order w n)"
  then have i: "i < n" by (simp add: deliver_def deliver_step_length)
  with assms show "deliver order w n ! i = map (\<lambda>i. Some (w i)) [0..<n] ! i"
    by (simp add: deliver_def deliver_step_nth)
qed

lemma receiveFirst_find:
  "(\<forall>i\<in>set js. w i = find P (c i)) \<Longrightarrow>
   receiveFirst (map (\<lambda>i. Some (w i)) js) = Some (find P (concat (map c js)))"
proof (induction js)
  case Nil
  then show ?case by simp
next
  case (Cons a js)
  then show ?case by (cases "find P (c a)") (simp_all add: find_append_if)
qed

lemma upt_split: "a \<le> b \<Longrightarrow> b \<le> c \<Longrightarrow> [a..<c] = [a..<b] @ [b..<(c::nat)]"
  using upt_add_eq_append [of a b "c - b"] by simp

lemma upt_min_append:
  assumes "a \<le> b" "b \<le> c"
  shows "[a..<min b n] @ [b..<min c n] = [a..<min c (n::nat)]"
proof (cases "n \<le> b")
  case True
  with assms have "min b n = n" "min c n = n" by simp_all
  with True show ?thesis by simp
next
  case False
  with assms have "[a..<min c n] = [a..<b] @ [b..<min c n]"
    by (intro upt_split) auto
  with False show ?thesis by (simp add: min_def)
qed

lemma NonWrappingAdd_plus: "NonWrappingAdd s (int m) = s + m"
  unfolding NonWrappingAdd_def by (simp add: nat_int_add)

lemma NonWrappingAdd_minus: "NonWrappingAdd s (- int m) = s - m"
  unfolding NonWrappingAdd_def by (simp add: nat_diff_distrib')

lemma concat_chunks_forward:
  "concat (map (\<lambda>i. [s + i * cs..<min (s + Suc i * cs) n]) [0..<m]) = [s..<min (s + m * cs) n]"
proof (induction m)
  case 0
  then show ?case by simp
next
  case (Suc m)
  have "[s..<min (s + m * cs) n] @ [s + m * cs..<min (s + Suc m * cs) n] =
        [s..<min (s + Suc m * cs) n]"
    by (rule upt_min_append) auto
  with Suc show ?case by simp
qed

lemma concat_chunks_backward:
  "concat (map (\<lambda>i. rev [Suc (s - Suc i * cs)..<Suc (s - i * cs)]) [0..<m]) =
   rev [Suc (s - m * cs)..<Suc s]"
proof (induction m)
  case 0
  then show ?case by simp
next
  case (Suc m)
  have "[Suc (s - Suc m * cs)..<Suc s] =
        [Suc (s - Suc m * cs)..<Suc (s - m * cs)] @ [Suc (s - m * cs)..<Suc s]"
    by (rule upt_split) auto
  with Suc show ?case by simp
qed

lemma goDiv_nonneg: "0 \<le> a \<Longrightarrow> 0 < b \<Longrightarrow> goDiv a b = a div b"
  by (cases "a = 0") (simp_all add: goDiv_def)

lemma searchStarts_one:
  assumes "linesCountOf reader s b bw < int numCPU \<or> numCPU = 1"
  shows "searchStartsOf numCPU reader s b bw = [s]"
  using assms by (auto simp: searchStartsOf_def Let_def NonWrappingAdd_def)

lemma searchStarts_many:
  assumes "0 < numCPU" "int numCPU \<le> linesCountOf reader s b bw"
  defines "cs \<equiv> nat (linesCountOf reader s b bw) div numCPU"
  shows "searchStartsOf numCPU reader s b bw =
           map (\<lambda>i. if bw then s - i * cs else s + i * cs) [0..<numCPU]"
    and "1 \<le> cs" and "numCPU * cs \<le> nat (linesCountOf reader s b bw)"
proof -
  let ?lc = "linesCountOf reader s b bw"
  from assms have lc: "0 \<le> ?lc" by simp
  have d: "goDiv ?lc (int numCPU) = int cs"
    using assms lc by (simp add: goDiv_nonneg cs_def zdiv_int)
  have "\<not> ?lc < int numCPU" using assms by simp
  then have "searchStartsOf numCPU reader s b bw =
      map (\<lambda>i. NonWrappingAdd s (int i * (if bw then - 1 else 1) * int cs)) [0..<numCPU]"
    by (simp add: searchStartsOf_def Let_def d)
  also have "\<dots> = map (\<lambda>i. if bw then s - i * cs else s + i * cs) [0..<numCPU]"
    by (rule map_cong) (auto simp: NonWrappingAdd_plus NonWrappingAdd_minus simp flip: of_nat_mult)
  finally show "searchStartsOf numCPU reader s b bw =
           map (\<lambda>i. if bw then s - i * cs else s + i * cs) [0..<numCPU]" .
  from assms have "numCPU \<le> nat ?lc" by simp
  with assms(1) show "1 \<le> cs" by (simp add: cs_def Suc_le_eq div_greater_zero_iff)
  show "numCPU * cs \<le> nat ?lc" by (simp add: cs_def)
qed


lemma worker_find:
  "scanWellFormed reader s b bw \<Longrightarrow>
   u_findFirstHit reader s pat b bw = find (hitAt reader pat) (scanRange reader s b bw)"
proof (cases bw)
  case True
  assume "scanWellFormed reader s b bw"
  with True show ?thesis by (simp add: scanWellFormed_def worker_backward)
next
  case False
  assume "scanWellFormed reader s b bw"
  with False show ?thesis by (simp add: scanWellFormed_def worker_forward)
qed

lemma chunkBeforeOf_map:
  "i < k \<Longrightarrow> chunkBeforeOf (map f [0..<k]) b i = (if Suc i < k then Some (f (Suc i)) else b)"
  by (simp add: chunkBeforeOf_def)

lemma forward_chunks:
  assumes cs: "1 \<le> cs" and k: "0 < k"
    and last: "case b of None \<Rightarrow> s + (k - 1) * cs \<le> length reader
                        | Some b' \<Rightarrow> s + (k - 1) * cs < b'"
  defines "starts \<equiv> map (\<lambda>i. s + i * cs) [0..<k]"
  shows "\<forall>i<k. scanWellFormed reader (starts ! i) (chunkBeforeOf starts b i) False"
    and "concat (map (\<lambda>i. scanRange reader (starts ! i) (chunkBeforeOf starts b i) False)
                  [0..<k]) = scanRange reader s b False"
proof -
  let ?n = "length reader"
  let ?u = "case b of None \<Rightarrow> ?n | Some b' \<Rightarrow> min b' ?n"
  let ?c = "\<lambda>i. scanRange reader (starts ! i) (chunkBeforeOf starts b i) False"
  show "\<forall>i<k. scanWellFormed reader (starts ! i) (chunkBeforeOf starts b i) False"
  proof (intro allI impI)
    fix i assume i: "i < k"
    show "scanWellFormed reader (starts ! i) (chunkBeforeOf starts b i) False"
    proof (cases "Suc i < k")
      case True
      with i cs show ?thesis
        by (simp add: starts_def chunkBeforeOf_map scanWellFormed_def)
    next
      case False
      with i have "i = k - 1" by simp
      with i False last show ?thesis
        by (simp add: starts_def chunkBeforeOf_map scanWellFormed_def split: option.splits)
    qed
  qed
  have inner: "map ?c [0..<k - 1] =
        map (\<lambda>i. [s + i * cs..<min (s + Suc i * cs) ?n]) [0..<k - 1]"
    by (rule map_cong) (auto simp: starts_def chunkBeforeOf_map scanRange_def)
  have lastc: "?c (k - 1) = [s + (k - 1) * cs..<?u]"
    using k by (simp add: starts_def chunkBeforeOf_map scanRange_def)
  from k have "[0..<k] = [0..<k - 1] @ [k - 1]"
    by (cases k) simp_all
  then have "concat (map ?c [0..<k]) = concat (map ?c [0..<k - 1]) @ ?c (k - 1)"
    by simp
  also have "\<dots> = [s..<min (s + (k - 1) * cs) ?n] @ [s + (k - 1) * cs..<?u]"
    by (simp only: inner lastc concat_chunks_forward)
  also have "\<dots> = [s..<?u]"
  proof (cases b)
    case None
    with last have "min (s + (k - 1) * cs) ?n = s + (k - 1) * cs" by simp
    with None last show ?thesis
      using upt_split [of s "s + (k - 1) * cs" ?n] by simp
  next
    case (Some b')
    with last have "[s..<min (s + (k - 1) * cs) ?n] @ [s + (k - 1) * cs..<min b' ?n] =
        [s..<min b' ?n]"
      by (intro upt_min_append) auto
    with Some show ?thesis by simp
  qed
  finally show "concat (map ?c [0..<k]) = scanRange reader s b False"
    by (simp add: scanRange_def)
qed

lemma backward_chunks:
  assumes cs: "1 \<le> cs" and k: "0 < k" and s: "s < length reader"
    and fits: "(k - 1) * cs \<le> s"
    and last: "case b of None \<Rightarrow> True | Some b' \<Rightarrow> b' < s - (k - 1) * cs"
  defines "starts \<equiv> map (\<lambda>i. s - i * cs) [0..<k]"
  shows "\<forall>i<k. scanWellFormed reader (starts ! i) (chunkBeforeOf starts b i) True"
    and "concat (map (\<lambda>i. scanRange reader (starts ! i) (chunkBeforeOf starts b i) True)
                  [0..<k]) = scanRange reader s b True"
proof -
  let ?lo = "case b of None \<Rightarrow> 0 | Some b' \<Rightarrow> Suc b'"
  let ?c = "\<lambda>i. scanRange reader (starts ! i) (chunkBeforeOf starts b i) True"
  show "\<forall>i<k. scanWellFormed reader (starts ! i) (chunkBeforeOf starts b i) True"
  proof (intro allI impI)
    fix i assume i: "i < k"
    show "scanWellFormed reader (starts ! i) (chunkBeforeOf starts b i) True"
    proof (cases "Suc i < k")
      case True
      then have "Suc i * cs \<le> (k - 1) * cs" by (intro mult_le_mono1) simp
      with fits have "Suc i * cs \<le> s" by simp
      with cs have "s - Suc i * cs < s - i * cs" by simp
      with i True s show ?thesis
        by (simp add: starts_def chunkBeforeOf_map scanWellFormed_def)
    next
      case False
      with i have "i = k - 1" by simp
      with i False last s show ?thesis
        by (simp add: starts_def chunkBeforeOf_map scanWellFormed_def split: option.splits)
    qed
  qed
  have inner: "map ?c [0..<k - 1] =
        map (\<lambda>i. rev [Suc (s - Suc i * cs)..<Suc (s - i * cs)]) [0..<k - 1]"
    by (rule map_cong) (auto simp: starts_def chunkBeforeOf_map scanRange_def)
  have lastc: "?c (k - 1) = rev [?lo..<Suc (s - (k - 1) * cs)]"
    using k by (simp add: starts_def chunkBeforeOf_map scanRange_def)
  from k have "[0..<k] = [0..<k - 1] @ [k - 1]"
    by (cases k) simp_all
  then have "concat (map ?c [0..<k]) = concat (map ?c [0..<k - 1]) @ ?c (k - 1)"
    by simp
  also have "\<dots> = rev [Suc (s - (k - 1) * cs)..<Suc s] @ rev [?lo..<Suc (s - (k - 1) * cs)]"
    by (simp only: inner lastc concat_chunks_backward)
  also have "\<dots> = rev ([?lo..<Suc (s - (k - 1) * cs)] @ [Suc (s - (k - 1) * cs)..<Suc s])"
    by simp
  also have "[?lo..<Suc (s - (k - 1) * cs)] @ [Suc (s - (k - 1) * cs)..<Suc s] = [?lo..<Suc s]"
    using last by (intro upt_split [symmetric]) (auto split: option.splits)
  finally show "concat (map ?c [0..<k]) = scanRange reader s b True"
    by (simp add: scanRange_def)
qed


lemma pred_mult: "0 < k \<Longrightarrow> (k - 1) * cs + cs = k * (cs::nat)"
  by (cases k) simp_all

lemma chunks_cover:
  assumes cpu: "0 < numCPU" and wf: "scanWellFormed reader s b bw"
  defines "starts \<equiv> searchStartsOf numCPU reader s b bw"
  shows "length starts \<le> numCPU"
    and "\<forall>i<length starts. scanWellFormed reader (starts ! i) (chunkBeforeOf starts b i) bw"
    and "concat (map (\<lambda>i. scanRange reader (starts ! i) (chunkBeforeOf starts b i) bw)
                  [0..<length starts]) = scanRange reader s b bw"
proof -
  let ?lc = "linesCountOf reader s b bw"
  let ?P = "length starts \<le> numCPU \<and>
    (\<forall>i<length starts. scanWellFormed reader (starts ! i) (chunkBeforeOf starts b i) bw) \<and>
    concat (map (\<lambda>i. scanRange reader (starts ! i) (chunkBeforeOf starts b i) bw)
                  [0..<length starts]) = scanRange reader s b bw"
  have ?P
  proof (cases "?lc < int numCPU")
    case True
    then have "starts = [s]" by (simp add: starts_def searchStarts_one)
    with cpu wf show ?thesis by (simp add: chunkBeforeOf_def)
  next
    case False
    then have ge: "int numCPU \<le> ?lc" by simp
    define cs where "cs = nat ?lc div numCPU"
    note m = searchStarts_many [OF cpu ge, folded cs_def]
    have st: "starts = map (\<lambda>i. if bw then s - i * cs else s + i * cs) [0..<numCPU]"
      using m(1) by (simp add: starts_def)
    have cs1: "1 \<le> cs" by (rule m(2))
    have tot: "(numCPU - 1) * cs + cs \<le> nat ?lc"
      using m(3) pred_mult [OF cpu, of cs] by simp
    show ?thesis
    proof (cases bw)
      case True
      with st have st': "starts = map (\<lambda>i. s - i * cs) [0..<numCPU]" by simp
      from wf True have sl: "s < length reader" by (simp add: scanWellFormed_def)
      from wf True have "nat ?lc \<le> Suc s"
        by (auto simp: linesCountOf_def scanWellFormed_def split: option.splits)
      with tot cs1 have fits: "(numCPU - 1) * cs \<le> s" by simp
      have last: "case b of None \<Rightarrow> True | Some b' \<Rightarrow> b' < s - (numCPU - 1) * cs"
      proof (cases b)
        case None then show ?thesis by simp
      next
        case (Some b')
        with wf True have "nat ?lc = s - b'" "b' < s"
          by (auto simp: linesCountOf_def scanWellFormed_def)
        with tot cs1 Some show ?thesis by simp
      qed
      from backward_chunks [OF cs1 cpu sl fits last] True show ?thesis
        unfolding st' by simp
    next
      case False
      with st have st': "starts = map (\<lambda>i. s + i * cs) [0..<numCPU]" by simp
      have last: "case b of None \<Rightarrow> s + (numCPU - 1) * cs \<le> length reader
                        | Some b' \<Rightarrow> s + (numCPU - 1) * cs < b'"
      proof (cases b)
        case None
        with False have "nat ?lc = length reader - s"
          by (simp add: linesCountOf_def GetLineCount_def)
        with tot cs1 None show ?thesis by simp
      next
        case (Some b')
        with wf False have "nat ?lc = b' - s" "s < b'"
          by (auto simp: linesCountOf_def scanWellFormed_def)
        with tot cs1 Some show ?thesis by simp
      qed
      from forward_chunks [OF cs1 cpu last] False show ?thesis
        unfolding st' by simp
    qed
  qed
  then show "length starts \<le> numCPU"
    and "\<forall>i<length starts. scanWellFormed reader (starts ! i) (chunkBeforeOf starts b i) bw"
    and "concat (map (\<lambda>i. scanRange reader (starts ! i) (chunkBeforeOf starts b i) bw)
                  [0..<length starts]) = scanRange reader s b bw"
    by simp_all
qed

lemma findFirstHit_find:
  assumes cpu: "0 < numCPU" and ord: "allFinish numCPU order"
    and wf: "scanWellFormed reader s b bw"
  shows "findFirstHit numCPU order reader pat s b bw =
         Some (find (hitAt reader pat) (scanRange reader s b bw))"
proof -
  define starts where "starts = searchStartsOf numCPU reader s b bw"
  note c = chunks_cover [OF cpu wf, folded starts_def]
  let ?w = "\<lambda>i. u_findFirstHit reader (starts ! i) pat (chunkBeforeOf starts b i) bw"
  let ?c = "\<lambda>i. scanRange reader (starts ! i) (chunkBeforeOf starts b i) bw"
  from ord c(1) have "\<forall>i<length starts. i \<in> set order"
    by (auto simp: allFinish_def list_all_iff)
  then have d: "deliver order ?w (length starts) = map (\<lambda>i. Some (?w i)) [0..<length starts]"
    by (rule deliver_all)
  have "\<forall>i\<in>set [0..<length starts]. ?w i = find (hitAt reader pat) (?c i)"
    using c(2) by (simp add: worker_find)
  then have "receiveFirst (map (\<lambda>i. Some (?w i)) [0..<length starts]) =
      Some (find (hitAt reader pat) (concat (map ?c [0..<length starts])))"
    by (rule receiveFirst_find)
  with d c(3) show ?thesis
    by (simp add: findFirstHit_def Let_def starts_def [symmetric])
qed

lemma set_scanRange:
  "scanWellFormed reader s b bw \<Longrightarrow>
   i \<in> set (scanRange reader s b bw) \<longleftrightarrow> inScanRange reader s b bw i"
  by (auto simp: scanRange_def inScanRange_def scanWellFormed_def split: option.splits)

lemma find_first_sorted:
  "find P xs = Some h \<Longrightarrow> sorted_wrt R xs \<Longrightarrow> i \<in> set xs \<Longrightarrow> P i \<Longrightarrow> i = h \<or> R h i"
  by (induction xs) (auto split: if_splits)

lemma scanRange_sorted:
  "sorted_wrt (\<lambda>h i. if bw then i < h else h < i) (scanRange reader s b bw)"
  by (cases bw) (simp_all add: scanRange_def sorted_wrt_rev del: upt_Suc)

text \<open>
  C1. Let the bound, if one is given, lie strictly beyond the start position in the direction
  of the scan, and let a backward scan start at a line of the store. Then, for every number
  of CPUs (so for every partition into chunks) and every order in which the chunk workers
  finish, \<open>findFirstHit\<close> returns, and it returns the first matching line of the range in scan
  order: the smallest matching index from the start on for a forward scan, the largest
  matching index up to the start for a backward scan, never an index at or beyond the bound,
  and nil exactly when no line of the range matches. The result is the same for every other
  number of CPUs and completion order.
\<close>

theorem findFirstHit_first_in_scan_order:
  assumes "0 < numCPU" and "allFinish numCPU order" and "scanWellFormed reader s b bw"
  shows "\<exists>r. findFirstHit numCPU order reader pat s b bw = Some r \<and>
    (case r of
       None \<Rightarrow> \<forall>i. inScanRange reader s b bw i \<longrightarrow> \<not> hitAt reader pat i
     | Some h \<Rightarrow> inScanRange reader s b bw h \<and> hitAt reader pat h \<and>
         (\<forall>i. inScanRange reader s b bw i \<and> hitAt reader pat i \<longrightarrow>
              (if bw then i \<le> h else h \<le> i))) \<and>
    (\<forall>numCPU' order'. 0 < numCPU' \<and> allFinish numCPU' order' \<longrightarrow>
       findFirstHit numCPU' order' reader pat s b bw = Some r)"
proof -
  let ?r = "find (hitAt reader pat) (scanRange reader s b bw)"
  have eq: "\<And>n ord. 0 < n \<Longrightarrow> allFinish n ord \<Longrightarrow>
      findFirstHit n ord reader pat s b bw = Some ?r"
    by (simp add: findFirstHit_find assms(3))
  have "case ?r of
       None \<Rightarrow> \<forall>i. inScanRange reader s b bw i \<longrightarrow> \<not> hitAt reader pat i
     | Some h \<Rightarrow> inScanRange reader s b bw h \<and> hitAt reader pat h \<and>
         (\<forall>i. inScanRange reader s b bw i \<and> hitAt reader pat i \<longrightarrow>
              (if bw then i \<le> h else h \<le> i))"
  proof (cases ?r)
    case None
    then have "\<forall>i\<in>set (scanRange reader s b bw). \<not> hitAt reader pat i"
      by (simp add: find_None_iff)
    then have "\<forall>i. inScanRange reader s b bw i \<longrightarrow> \<not> hitAt reader pat i"
      by (simp add: set_scanRange [OF assms(3)])
    then show ?thesis by (simp only: None option.case)
  next
    case (Some h)
    then have h: "h \<in> set (scanRange reader s b bw)" "hitAt reader pat h"
      by (auto simp: find_Some_iff)
    have "(if bw then i \<le> h else h \<le> i)"
      if "inScanRange reader s b bw i" "hitAt reader pat i" for i
    proof -
      from that(1) have "i \<in> set (scanRange reader s b bw)"
        by (simp add: set_scanRange [OF assms(3)])
      from find_first_sorted [OF Some scanRange_sorted this that(2)]
      show ?thesis by (auto split: if_splits)
    qed
    with h Some show ?thesis
      by (simp add: set_scanRange [OF assms(3)])
  qed
  with eq assms(1,2) show ?thesis by blast
qed

theorem findFirstHit_first_in_scan_order_witness:
  "(0::nat) < 2 \<and> allFinish 2 [1, 0] \<and> scanWellFormed exampleLines 2 None False \<and>
   findFirstHit 2 [1, 0] exampleLines hasX 2 None False = Some (Some 3) \<and>
   inScanRange exampleLines 2 None False 3 \<and> hitAt exampleLines hasX 3 \<and>
   findFirstHit 1 [0] exampleLines hasX 2 None False = Some (Some 3) \<and>
   scanWellFormed exampleLines 4 (Some 0) True \<and>
   findFirstHit 2 [0, 1] exampleLines hasX 4 (Some 0) True = Some (Some 3)"
proof -
  have c: "(0::nat) < 2" by simp
  have o: "allFinish 2 [1, 0]" "allFinish 2 [0, 1]" "allFinish 1 [0]"
    by (simp_all add: allFinish_def upt_rec)
  have w: "scanWellFormed exampleLines 2 None False" "scanWellFormed exampleLines 4 (Some 0) True"
    by (simp_all add: scanWellFormed_def exampleLines_def)
  have v: "findFirstHit 2 [1, 0] exampleLines hasX 2 None False = Some (Some 3)"
    by code_simp
  from findFirstHit_first_in_scan_order [OF c o(1) w(1), of hasX] v o(3)
  have a: "inScanRange exampleLines 2 None False 3" "hitAt exampleLines hasX 3"
    "findFirstHit 1 [0] exampleLines hasX 2 None False = Some (Some 3)"
    by auto
  have v': "findFirstHit 2 [0, 1] exampleLines hasX 4 (Some 0) True = Some (Some 3)"
    by code_simp
  from c o w v a v' show ?thesis by simp
qed

text \<open>
  The claim as stated, for every start position and bound, fails. A forward scan whose bound
  is the start position returns the bound itself. A backward scan that starts beyond the
  last line reports no match with one chunk although lines before the start match, and with
  two chunks it finds one of them, so there the result depends on the partition.
\<close>

theorem findFirstHit_counterexample:
  "findFirstHit 1 [0] exampleLines hasX 1 (Some 1) False = Some (Some 1) \<and>
   findFirstHit 1 [0] exampleLines hasX 7 None True = Some None \<and>
   findFirstHit 2 [0, 1] exampleLines hasX 7 None True = Some (Some 3) \<and>
   hitAt exampleLines hasX 3"
  by code_simp


section \<open>Properties: serializing a row\<close>

lemma withoutHiddenRunes_loop_eq:
  "withoutHiddenRunes_loop rw rs i acc =
   acc @ map (nth rs) (filter (\<lambda>j. \<not> hiddenAt rw rs j) [i..<length rs])"
proof (induction rw rs i acc rule: withoutHiddenRunes_loop.induct)
  case (1 rw rs i result)
  show ?case
  proof (cases "i < length rs")
    case False
    then show ?thesis by (subst withoutHiddenRunes_loop.simps) simp
  next
    case True
    then have u: "[i..<length rs] = i # [Suc i..<length rs]" by (simp add: upt_conv_Cons)
    show ?thesis
    proof (cases "i > 0 \<and> Width rw (rs ! (i - 1)) = 2")
      case h: True
      with True 1(1) show ?thesis
        by (subst withoutHiddenRunes_loop.simps) (simp add: u hiddenAt_def)
    next
      case h: False
      with True 1(2) show ?thesis
        by (subst withoutHiddenRunes_loop.simps) (auto simp add: u hiddenAt_def)
    qed
  qed
qed

lemma withoutHiddenRunes_eq:
  "withoutHiddenRunes rw rs = map (nth rs) (filter (\<lambda>j. \<not> hiddenAt rw rs j) [0..<length rs])"
  by (simp add: withoutHiddenRunes_def withoutHiddenRunes_loop_eq)

lemma stripTrailing_stop:
  "i < 0 \<or> Rune (row ! nat i) \<noteq> 32 \<or>
   (has (attrs (Style (row ! nat i))) AttrReverse \<and> fg (Style (row ! nat i)) = ColorDefault) \<or>
   (st \<and> shownBackground (row ! nat i) \<noteq> t) \<Longrightarrow>
   stripTrailing row i t st = (i, t)"
  by (subst stripTrailing.simps) (auto simp: Let_def shownBackground_def)

lemma stripTrailing_step:
  "0 \<le> i \<Longrightarrow> Rune (row ! nat i) = 32 \<Longrightarrow>
   \<not> (has (attrs (Style (row ! nat i))) AttrReverse \<and> fg (Style (row ! nat i)) = ColorDefault) \<Longrightarrow>
   \<not> (st \<and> shownBackground (row ! nat i) \<noteq> t) \<Longrightarrow>
   stripTrailing row i t st =
     stripTrailing row (i - 1) (if st then t else shownBackground (row ! nat i)) True"
  by (subst stripTrailing.simps) (auto simp: Let_def shownBackground_def)

lemma stripTrailing_inv:
  assumes "stripTrailing row i t st = (k, tb)" and "- 1 \<le> i" and "i < int (length row)"
    and "st \<longrightarrow> i < int (length row) - 1 \<and>
               (\<forall>j. nat (i + 1) \<le> j \<and> j < length row \<longrightarrow> trimmable (row ! j) t)"
    and "\<not> st \<longrightarrow> i = int (length row) - 1 \<and> t = ColorDefault"
  shows "- 1 \<le> k \<and> k \<le> i \<and>
     (\<forall>j. nat (k + 1) \<le> j \<and> j < length row \<longrightarrow> trimmable (row ! j) tb) \<and>
     (0 \<le> k \<longrightarrow> \<not> trimmable (row ! nat k)
         (if k = int (length row) - 1 then shownBackground (row ! nat k) else tb)) \<and>
     (k = int (length row) - 1 \<longrightarrow> tb = ColorDefault)"
  using assms
proof (induction "nat (i + 1)" arbitrary: i t st)
  case 0
  then have i: "i = - 1" by simp
  with "0.prems"(1) have r: "k = - 1" "tb = t" by (simp_all add: stripTrailing_stop)
  with i "0.prems"(4,5) show ?case by (cases st) auto
next
  case (Suc n)
  then have i0: "0 \<le> i" by simp
  let ?c = "row ! nat i"
  let ?stop = "Rune ?c \<noteq> 32 \<or>
      (has (attrs (Style ?c)) AttrReverse \<and> fg (Style ?c) = ColorDefault) \<or>
      (st \<and> shownBackground ?c \<noteq> t)"
  show ?case
  proof (cases ?stop)
    case True
    with Suc.prems(1) have r: "k = i" "tb = t" by (simp_all add: stripTrailing_stop)
    have nt: "\<not> trimmable ?c (if i = int (length row) - 1 then shownBackground ?c else t)"
      using True Suc.prems(4,5) by (cases st) (auto simp: trimmable_def)
    have tr: "\<forall>j. nat (i + 1) \<le> j \<and> j < length row \<longrightarrow> trimmable (row ! j) t"
      using Suc.prems(4,5) by (cases st) auto
    have cd: "i = int (length row) - 1 \<longrightarrow> t = ColorDefault"
      using Suc.prems(4,5) by (cases st) auto
    from r i0 nt tr cd show ?thesis by (cases "i = int (length row) - 1") auto
  next
    case False
    let ?t' = "if st then t else shownBackground ?c"
    from False i0 Suc.prems(1)
    have rec: "stripTrailing row (i - 1) ?t' True = (k, tb)"
      by (simp add: stripTrailing_step)
    have tc: "trimmable ?c ?t'" using False by (auto simp: trimmable_def)
    have tr: "\<forall>j. nat (i - 1 + 1) \<le> j \<and> j < length row \<longrightarrow> trimmable (row ! j) ?t'"
    proof (intro allI impI)
      fix j assume j: "nat (i - 1 + 1) \<le> j \<and> j < length row"
      show "trimmable (row ! j) ?t'"
      proof (cases "j = nat i")
        case True
        with tc show ?thesis by simp
      next
        case nj: False
        with j i0 have "nat (i + 1) \<le> j" by linarith
        with j Suc.prems(4,5) i0 show ?thesis by (cases st) auto
      qed
    qed
    have n: "n = nat (i - 1 + 1)" using Suc.hyps(2) by linarith
    have p2: "- 1 \<le> i - 1" "i - 1 < int (length row)" using i0 Suc.prems(3) by simp_all
    have p4: "True \<longrightarrow> i - 1 < int (length row) - 1 \<and>
       (\<forall>j. nat (i - 1 + 1) \<le> j \<and> j < length row \<longrightarrow> trimmable (row ! j) ?t')"
      using tr Suc.prems(3) by simp
    have p5: "\<not> True \<longrightarrow> i - 1 = int (length row) - 1 \<and> ?t' = ColorDefault" by simp
    from Suc.hyps(1) [OF n rec p2 p4 p5] show ?thesis by auto
  qed
qed


lemma putRunes_append: "putRunes (xs @ ys) = putRunes xs @ putRunes ys"
  by (induction xs rule: putRunes.induct) simp_all

lemma writeCells_props:
  "writeCells pr cc row ls = (body, final) \<Longrightarrow>
   clearToEOL \<notin> set body \<and> putRunes body = map (writtenRune pr) row"
proof (induction row arbitrary: ls body final)
  case Nil
  then show ?case by simp
next
  case (Cons c row)
  let ?style = "if \<not> pr (Rune c) then unprintableStyle else Style c"
  obtain rest fin where r: "writeCells pr cc row ?style = (rest, fin)"
    by (cases "writeCells pr cc row ?style")
  from Cons.IH [OF r] have ih: "clearToEOL \<notin> set rest" "putRunes rest = map (writtenRune pr) row"
    by simp_all
  from Cons.prems r
  have b: "body = (if ?style \<noteq> ls then [StyleUpdate ?style ls cc] else []) @
              [PutRune (if \<not> pr (Rune c) then 0x3F else Rune c)] @ rest"
    by (simp add: Let_def)
  from ih show ?case
    unfolding b by (auto simp: clearToEOL_def writtenRune_def putRunes_append)
qed

lemma withoutHiddenRunes_length: "length (withoutHiddenRunes rw rs) \<le> length rs"
proof -
  have "length (filter (\<lambda>j. \<not> hiddenAt rw rs j) [0..<length rs]) \<le> length [0..<length rs]"
    by (rule length_filter_le)
  then show ?thesis by (simp add: withoutHiddenRunes_eq)
qed

lemma renderLine_parts:
  assumes "renderLine rw pr row0 width cc = (out, n)"
  shows "\<exists>tb body last.
     0 \<le> n \<and> nat n \<le> length (withoutHiddenRunes rw row0) \<and>
     (\<forall>c\<in>set (drop (nat n) (withoutHiddenRunes rw row0)). trimmable c tb) \<and>
     (0 < n \<longrightarrow> \<not> trimmable (withoutHiddenRunes rw row0 ! (nat n - 1))
        (if nat n = length (withoutHiddenRunes rw row0)
         then shownBackground (withoutHiddenRunes rw row0 ! (nat n - 1)) else tb)) \<and>
     out = resetStyle # body @
             (if n < width
              then [StyleUpdate (WithBackground StyleDefault tb) last cc, clearToEOL] else []) \<and>
     clearToEOL \<notin> set body \<and>
     putRunes body = map (writtenRune pr) (take (nat n) (withoutHiddenRunes rw row0))"
proof -
  let ?v = "withoutHiddenRunes rw row0"
  obtain k tb where st: "stripTrailing ?v (int (length ?v) - 1) ColorDefault False = (k, tb)"
    by (cases "stripTrailing ?v (int (length ?v) - 1) ColorDefault False")
  have inv: "- 1 \<le> k \<and> k \<le> int (length ?v) - 1 \<and>
     (\<forall>j. nat (k + 1) \<le> j \<and> j < length ?v \<longrightarrow> trimmable (?v ! j) tb) \<and>
     (0 \<le> k \<longrightarrow> \<not> trimmable (?v ! nat k)
         (if k = int (length ?v) - 1 then shownBackground (?v ! nat k) else tb)) \<and>
     (k = int (length ?v) - 1 \<longrightarrow> tb = ColorDefault)"
    by (rule stripTrailing_inv [OF st]) simp_all
  let ?row = "take (nat (k + 1)) ?v"
  obtain body fin where wc: "writeCells pr cc ?row StyleDefault = (body, fin)"
    by (cases "writeCells pr cc ?row StyleDefault")
  note wp = writeCells_props [OF wc]
  let ?unlink = "if WithHyperlink fin None \<noteq> fin
                 then [StyleUpdate (WithHyperlink fin None) fin cc] else []"
  from inv have kl: "nat (k + 1) \<le> length ?v" by linarith
  then have len: "length ?row = nat (k + 1)" by simp
  from inv have k1: "int (nat (k + 1)) = k + 1" by simp
  from kl have lmin: "min (length ?v) (nat (k + 1)) = nat (k + 1)" by simp
  from inv have kge: "0 \<le> k + 1" by simp
  have n: "n = k + 1"
    using assms unfolding renderLine_def Let_def st wc prod.case
    by (simp add: lmin kge)
  have out0: "out = resetStyle # body @ ?unlink @
        (if k + 1 < width
         then [StyleUpdate (WithBackground StyleDefault tb) (WithHyperlink fin None) cc,
               clearToEOL] else [])"
    using assms unfolding renderLine_def Let_def st wc prod.case
    by (auto simp: lmin kge)
  have out: "out = resetStyle # (body @ ?unlink) @
        (if n < width
         then [StyleUpdate (WithBackground StyleDefault tb) (WithHyperlink fin None) cc,
               clearToEOL] else [])"
    unfolding out0 n by simp
  have a: "0 \<le> n \<and> nat n \<le> length ?v" using n inv by auto
  have b: "\<forall>c\<in>set (drop (nat n) ?v). trimmable c tb"
  proof
    fix c assume "c \<in> set (drop (nat n) ?v)"
    then obtain j where "j < length (drop (nat n) ?v)" "c = drop (nat n) ?v ! j"
      by (auto simp: in_set_conv_nth)
    then have "c = ?v ! (nat n + j)" "nat n + j < length ?v" by auto
    with inv n show "trimmable c tb" by auto
  qed
  have c: "0 < n \<longrightarrow> \<not> trimmable (?v ! (nat n - 1))
        (if nat n = length ?v then shownBackground (?v ! (nat n - 1)) else tb)"
  proof
    assume "0 < n"
    with n have k0: "0 \<le> k" and e: "nat n - 1 = nat k" by auto
    from n k0 have eq: "(nat n = length ?v) = (k = int (length ?v) - 1)" by auto
    from inv k0 have m: "\<not> trimmable (?v ! nat k)
         (if k = int (length ?v) - 1 then shownBackground (?v ! nat k) else tb)" by blast
    show "\<not> trimmable (?v ! (nat n - 1))
        (if nat n = length ?v then shownBackground (?v ! (nat n - 1)) else tb)"
      unfolding e eq using m .
  qed
  have d: "clearToEOL \<notin> set (body @ ?unlink)" using wp by (simp add: clearToEOL_def)
  have e: "putRunes (body @ ?unlink) = map (writtenRune pr) (take (nat n) ?v)"
    using wp n by (simp add: putRunes_append)
  from a b c out d e show ?thesis by blast
qed

end
